theory Spec2Isabelle
  imports Main "HOL-Library.Log_Nat"
begin

section \<open>Python values used by aag.py\<close>

text \<open>
  The exceptions that the code of \<^verbatim>\<open>aag.py\<close> can raise by itself. Exceptions raised
  inside the imaging library are not distinguished: the handlers of the stage functions
  catch \<^verbatim>\<open>Exception\<close>, so only the fact that one was raised matters.
\<close>

datatype py_error =
    IndexError
  | ZeroDivisionError
  | OverflowError
  | TypeError
  | ValueError
  | AttributeError
  | LibraryError

text \<open>
  Python list indexing \<^verbatim>\<open>xs[i]\<close>: a negative index counts from the end, an index outside
  \<^verbatim>\<open>-len(xs) .. len(xs) - 1\<close> raises \<^verbatim>\<open>IndexError\<close>.
\<close>

definition getitem :: "'a list \<Rightarrow> int \<Rightarrow> py_error + 'a" where
  "getitem xs i =
     (if 0 \<le> i \<and> i < int (length xs) then Inr (xs ! nat i)
      else if - int (length xs) \<le> i \<and> i < 0 then Inr (xs ! nat (int (length xs) + i))
      else Inl IndexError)"

section \<open>The character ramp and the ascii mapper\<close>

text \<open>
  \<^verbatim>\<open>class Chars(Enum): ASCII_CHARS = ["@", "#", "$", "%", "?", "*", "+", ";", ":", ",", "."]\<close>
  The ramp is a list of one-character strings.
\<close>

definition ASCII_CHARS :: "string list" where
  "ASCII_CHARS =
     [''@'', ''#'', ''$'', ''%'', ''?'', ''*'', ''+'', '';'', '':'', '','', ''.'']"

text \<open>
  The index expression \<^verbatim>\<open>pixel // 25\<close>. Python's floor division on integers with a
  positive divisor is \<open>div\<close> on \<open>int\<close>.
\<close>

definition ramp_index :: "int \<Rightarrow> int" where
  "ramp_index pixel = pixel div 25"

text \<open>The lookup \<^verbatim>\<open>Chars.ASCII_CHARS.value[(pixel // 25)]\<close> of one pixel.\<close>

definition pixel_char :: "int \<Rightarrow> py_error + string" where
  "pixel_char pixel = getitem ASCII_CHARS (ramp_index pixel)"

text \<open>
  The loop of \<^verbatim>\<open>convert_pixel_to_ascii\<close>:
  \<^verbatim>\<open>
  ascii_str = ''
  for pixel in pixels:
      ascii_str += Chars.ASCII_CHARS.value[(pixel // 25)]
  \<close>
  with the string built so far as accumulator. An exception leaves the loop at once.
\<close>

fun ascii_loop :: "int list \<Rightarrow> string \<Rightarrow> py_error + string" where
  "ascii_loop [] ascii_str = Inr ascii_str"
| "ascii_loop (pixel # pixels) ascii_str =
     (case pixel_char pixel of
        Inl e \<Rightarrow> Inl e
      | Inr c \<Rightarrow> ascii_loop pixels (ascii_str @ c))"

section \<open>Python floats\<close>

text \<open>
  A Python \<^verbatim>\<open>float\<close> is an IEEE 754 binary64 number. A finite float is modelled by the
  rational number it denotes, and every arithmetic operation rounds its exact result to
  the nearest float, ties to even. \<open>round_half_even\<close> rounds a rational to the nearest
  integer, ties to even; \<open>floor_log2 a\<close> is the binary exponent of a positive \<open>a\<close>,
  the \<open>e\<close> with \<open>2 powi e \<le> a < 2 powi (e + 1)\<close>, read off the bit length of an integer;
  \<open>ulp_exponent a\<close> is the exponent of the last of the 53 significand bits, bounded
  below by the exponent of the subnormal numbers.
\<close>

definition round_half_even :: "rat \<Rightarrow> int" where
  "round_half_even r =
     (let f = \<lfloor>r\<rfloor>; d = r - of_int f
      in if d < 1 / 2 then f else if 1 / 2 < d then f + 1 else if even f then f else f + 1)"

definition floor_log2 :: "rat \<Rightarrow> int" where
  "floor_log2 a =
     (if 1 \<le> a then bitlen \<lfloor>a\<rfloor> - 1 else - bitlen (\<lceil>1 / a\<rceil> - 1))"

definition ulp_exponent :: "rat \<Rightarrow> int" where
  "ulp_exponent a = max (floor_log2 a - 52) (- 1074)"

text \<open>
  Rounding to binary64. \<open>None\<close> is the overflow to an infinity: the rounded magnitude
  reaches \<open>2 ^ 1024\<close>.
\<close>

definition round_double :: "rat \<Rightarrow> rat option" where
  "round_double x =
     (if x = 0 then Some 0
      else let a = \<bar>x\<bar>; q = ulp_exponent a;
               r = of_int (round_half_even (a / 2 powi q)) * 2 powi q
           in if 2 ^ 1024 \<le> r then None else Some (sgn x * r))"

text \<open>
  The finite floats: an integer significand of fewer than 54 bits, scaled by a power of
  two no smaller than that of the subnormal numbers, within the range.
\<close>

definition is_double :: "rat \<Rightarrow> bool" where
  "is_double y \<longleftrightarrow>
     (\<exists>m q. y = of_int m * 2 powi q \<and> \<bar>m\<bar> < 2 ^ 53 \<and> - 1074 \<le> q \<and> \<bar>y\<bar> < 2 ^ 1024)"

text \<open>The float literal \<^verbatim>\<open>.3\<close>: the binary64 number nearest to \<open>3 / 10\<close>.\<close>

definition float_03 :: rat where
  "float_03 = 5404319552844595 / 18014398509481984"

text \<open>
  \<^verbatim>\<open>a / b\<close> on two Python integers: the correctly rounded quotient;
  \<^verbatim>\<open>ZeroDivisionError\<close> for \<^verbatim>\<open>b == 0\<close>, \<^verbatim>\<open>OverflowError\<close> when the quotient is too large
  for a float.
\<close>

definition py_truediv :: "int \<Rightarrow> int \<Rightarrow> py_error + rat" where
  "py_truediv a b =
     (if b = 0 then Inl ZeroDivisionError
      else case round_double (of_int a / of_int b) of
             None \<Rightarrow> Inl OverflowError
           | Some q \<Rightarrow> Inr q)"

text \<open>\<^verbatim>\<open>float(k)\<close> of a Python integer, as the mixed operations below apply it.\<close>

definition int_to_float :: "int \<Rightarrow> py_error + rat" where
  "int_to_float k =
     (case round_double (of_int k) of None \<Rightarrow> Inl OverflowError | Some x \<Rightarrow> Inr x)"

text \<open>
  \<^verbatim>\<open>x * y\<close> and \<^verbatim>\<open>x - y\<close> on floats. Float arithmetic does not raise on overflow: the
  result is an infinity, here \<open>None\<close>.
\<close>

definition float_mul :: "rat \<Rightarrow> rat \<Rightarrow> rat option" where
  "float_mul x y = round_double (x * y)"

definition float_sub :: "rat \<Rightarrow> rat \<Rightarrow> rat option" where
  "float_sub x y = round_double (x - y)"

text \<open>
  \<^verbatim>\<open>int(x)\<close> of a float truncates towards zero, and raises \<^verbatim>\<open>OverflowError\<close> on an
  infinity.
\<close>

definition py_int :: "rat option \<Rightarrow> py_error + int" where
  "py_int x =
     (case x of
        None \<Rightarrow> Inl OverflowError
      | Some v \<Rightarrow> Inr (if 0 \<le> v then \<lfloor>v\<rfloor> else \<lceil>v\<rceil>))"

text \<open>Sequencing of computations that may raise.\<close>

definition bind_err :: "py_error + 'a \<Rightarrow> ('a \<Rightarrow> py_error + 'b) \<Rightarrow> py_error + 'b" where
  "bind_err m f = (case m of Inl e \<Rightarrow> Inl e | Inr v \<Rightarrow> f v)"

section \<open>The size computed by the resizer\<close>

text \<open>
  The arithmetic of \<^verbatim>\<open>resize_image\<close>, up to the pair handed to the library's
  \<^verbatim>\<open>resize\<close>:
  \<^verbatim>\<open>
  target_height = self.target_width * int(current_image_height) / int(current_image_width)
  target_height = target_height - (int(target_height * .3))
  return self.image.resize((self.target_width, int(target_height)))
  \<close>
  The first line is an integer product followed by a true division, so
  \<^verbatim>\<open>target_height\<close> is a float from there on.
\<close>

definition target_size :: "int \<Rightarrow> int \<Rightarrow> int \<Rightarrow> py_error + int \<times> int" where
  "target_size target_width current_image_width current_image_height =
     bind_err (py_truediv (target_width * current_image_height) current_image_width)
       (\<lambda>target_height.
     bind_err (py_int (float_mul target_height float_03))
       (\<lambda>reduction.
     bind_err (int_to_float reduction)
       (\<lambda>reduction_f.
     bind_err (py_int (float_sub target_height reduction_f))
       (\<lambda>final_height. Inr (target_width, final_height)))))"

text \<open>
  The height as the specification words it, for comparison with \<open>target_size\<close>:
  \<^verbatim>\<open>H' = int(target_width*H/W) - int(int(target_width*H/W)*0.3)\<close>, the quotient being
  truncated before the reduction is computed.
\<close>

definition spec_height :: "int \<Rightarrow> int \<Rightarrow> int \<Rightarrow> py_error + int" where
  "spec_height target_width W H =
     bind_err (py_truediv (target_width * H) W)
       (\<lambda>quotient.
     bind_err (py_int (Some quotient))
       (\<lambda>truncated.
     bind_err (int_to_float truncated)
       (\<lambda>truncated_f.
     bind_err (py_int (float_mul truncated_f float_03))
       (\<lambda>reduction. Inr (truncated - reduction)))))"

section \<open>The environment: logger, file system, imaging library\<close>

text \<open>
  The logger is modelled by the list of the records handed to it, oldest first, whatever
  the configured level. A traceback that the interpreter prints for an uncaught exception
  is not a record of the logger.
\<close>

datatype log_level = DEBUG | INFO | ERROR

text \<open>
  The file system: the directories that exist, the regular files with their contents, and
  the paths at which the operating system refuses to create or write anything
  (permissions, a full disk). A path is resolved to its list of components: empty
  components and \<^verbatim>\<open>.\<close> are dropped, the empty list is the directory the process runs
  in, which exists. This is the operating system's resolution for relative paths without
  \<^verbatim>\<open>..\<close>, without a leading \<^verbatim>\<open>/\<close> and without a trailing \<^verbatim>\<open>/\<close> on a regular file;
  a component \<^verbatim>\<open>..\<close> is read as a name like any other and a leading or trailing \<^verbatim>\<open>/\<close>
  is dropped, so paths of those forms are outside what the model describes.
\<close>

record filesys =
  dirs :: "string list set"
  files :: "string list \<rightharpoonup> string"
  denied :: "string list set"

record world =
  logged :: "(log_level \<times> string) list"
  fsys :: filesys

definition log_msg :: "log_level \<Rightarrow> string \<Rightarrow> world \<Rightarrow> world" where
  "log_msg lvl msg w = w\<lparr>logged := logged w @ [(lvl, msg)]\<rparr>"

text \<open>The messages of the records logged at level \<^verbatim>\<open>ERROR\<close>, oldest first.\<close>

definition errors :: "world \<Rightarrow> string list" where
  "errors w = map snd (filter (\<lambda>r. fst r = ERROR) (logged w))"

text \<open>\<^verbatim>\<open>s.split(c)\<close> and \<^verbatim>\<open>sep.join(parts)\<close> on Python strings.\<close>

fun split_on :: "char \<Rightarrow> string \<Rightarrow> string list" where
  "split_on c [] = [[]]"
| "split_on c (x # xs) =
     (if x = c then [] # split_on c xs
      else case split_on c xs of
             [] \<Rightarrow> [[x]]
           | part # parts \<Rightarrow> (x # part) # parts)"

fun join_with :: "string \<Rightarrow> string list \<Rightarrow> string" where
  "join_with sep [] = []"
| "join_with sep [part] = part"
| "join_with sep (part # parts) = part @ sep @ join_with sep parts"

definition resolve :: "string \<Rightarrow> string list" where
  "resolve path = filter (\<lambda>c. c \<noteq> [] \<and> c \<noteq> ''.'') (split_on CHR ''/'' path)"

definition dir_exists :: "filesys \<Rightarrow> string list \<Rightarrow> bool" where
  "dir_exists fs d = (d = [] \<or> d \<in> dirs fs)"

text \<open>\<^verbatim>\<open>os.path.exists(path)\<close>; it is false for the empty string.\<close>

definition os_path_exists :: "filesys \<Rightarrow> string \<Rightarrow> bool" where
  "os_path_exists fs path =
     (path \<noteq> [] \<and> (dir_exists fs (resolve path) \<or> files fs (resolve path) \<noteq> None))"

text \<open>
  \<^verbatim>\<open>os.path.join(a, b)\<close>: an absolute second part replaces the first; otherwise the
  parts are joined by one \<^verbatim>\<open>/\<close> unless the first is empty or ends with one.
\<close>

definition os_path_join :: "string \<Rightarrow> string \<Rightarrow> string" where
  "os_path_join a b =
     (if b \<noteq> [] \<and> hd b = CHR ''/'' then b
      else if a = [] \<or> last a = CHR ''/'' then a @ b
      else a @ ''/'' @ b)"

text \<open>
  \<^verbatim>\<open>Path(path).mkdir(parents=True, exist_ok=True)\<close>, along the prefixes of the resolved
  path from the shortest: an existing directory is passed over, a missing one is created,
  a regular file in the way or a refusal of the operating system raises. The result is
  whether it raised, and the file system it leaves.
\<close>

fun mkdir_each :: "string list list \<Rightarrow> filesys \<Rightarrow> bool \<times> filesys" where
  "mkdir_each [] fs = (True, fs)"
| "mkdir_each (d # ds) fs =
     (if dir_exists fs d then mkdir_each ds fs
      else if files fs d \<noteq> None \<or> d \<in> denied fs then (False, fs)
      else mkdir_each ds (fs\<lparr>dirs := insert d (dirs fs)\<rparr>))"

definition prefixes_of :: "string list \<Rightarrow> string list list" where
  "prefixes_of d = map (\<lambda>n. take n d) [1 ..< Suc (length d)]"

definition Path_mkdir :: "string \<Rightarrow> filesys \<Rightarrow> bool \<times> filesys" where
  "Path_mkdir path fs = mkdir_each (prefixes_of (resolve path)) fs"

text \<open>
  \<^verbatim>\<open>with open(path, 'w') as f: f.write(content)\<close>: it raises an \<^verbatim>\<open>OSError\<close>, which is
  what \<^verbatim>\<open>IOError\<close> names, when the path is a directory, when its parent directory does
  not exist, or when the operating system refuses; otherwise the file holds exactly
  \<open>content\<close> afterwards, whatever it held before.
\<close>

definition open_write :: "string \<Rightarrow> string \<Rightarrow> filesys \<Rightarrow> filesys option" where
  "open_write path content fs =
     (let d = resolve path
      in if path = [] \<or> dir_exists fs d then None
         else if \<not> dir_exists fs (butlast d) then None
         else if d \<in> denied fs then None
         else Some (fs\<lparr>files := (files fs)(d \<mapsto> content)\<rparr>))"

text \<open>
  An image of the imaging library: its size and, for a single-band image, what
  \<^verbatim>\<open>getdata()\<close> yields, the intensities in row-major order.
\<close>

record image =
  width :: int
  height :: int
  getdata :: "int list"

text \<open>
  The imaging library is code outside the repository, so it is a parameter of the model.
  \<^verbatim>\<open>Image.open\<close> returns an image, raises \<^verbatim>\<open>FileNotFoundError\<close>, or raises something
  else (a file that is no image, a directory, a refused read). \<^verbatim>\<open>resize\<close> and
  \<^verbatim>\<open>convert('L')\<close> return an image or raise, which is \<open>None\<close> here; the library may
  put off decoding until the data are first used, so \<^verbatim>\<open>resize\<close> also raises for a file
  that opened and cannot be decoded.
\<close>

datatype open_result = Opened image | FileNotFoundError | OtherOpenError

record pil =
  Image_open :: "string \<Rightarrow> open_result"
  Image_resize :: "image \<Rightarrow> int \<times> int \<Rightarrow> image option"
  Image_convert_L :: "image \<Rightarrow> image option"

text \<open>The command line, parsed: \<^verbatim>\<open>cfg\<close>.\<close>

record config =
  log_level :: string
  image_path :: string
  output_path :: string
  output_file_name :: string

text \<open>
  How a call can end abruptly: \<^verbatim>\<open>sys.exit(n)\<close>, or an exception that no handler of the
  program catches. The interpreter ends the process with status \<open>n\<close> in the first case
  and, after printing the traceback, with status 1 in the second.
\<close>

datatype abort = SystemExit int | Uncaught py_error

fun exit_status :: "abort \<Rightarrow> int" where
  "exit_status (SystemExit n) = n"
| "exit_status (Uncaught e) = 1"

section \<open>AsciiArtConverter\<close>

record converter =
  is_context_manager :: bool
  path_to_image :: string
  image :: "image option"
  target_width :: int

text \<open>
  \<^verbatim>\<open>load_image\<close>: only \<^verbatim>\<open>FileNotFoundError\<close> has a handler, which logs and calls
  \<^verbatim>\<open>sys.exit(1)\<close>; any other exception of \<^verbatim>\<open>Image.open\<close> leaves the method.
\<close>

definition load_image :: "pil \<Rightarrow> converter \<Rightarrow> world \<Rightarrow> (abort + converter) \<times> world" where
  "load_image lib self w =
     (let w1 = log_msg INFO ''Loading image'' w
      in case Image_open lib (path_to_image self) of
           Opened img \<Rightarrow> (Inr (self\<lparr>image := Some img\<rparr>), w1)
         | FileNotFoundError \<Rightarrow> (Inl (SystemExit 1), log_msg ERROR ''Unable to open'' w1)
         | OtherOpenError \<Rightarrow> (Inl (Uncaught LibraryError), w1))"

text \<open>
  \<^verbatim>\<open>def __init__(self, path_to_image: str, target_width: int = 100)\<close>. The optional
  argument is \<open>None\<close> when the caller leaves it out.
\<close>

definition AsciiArtConverter_init ::
  "pil \<Rightarrow> string \<Rightarrow> int option \<Rightarrow> world \<Rightarrow> (abort + converter) \<times> world" where
  "AsciiArtConverter_init lib path target_width_arg w =
     load_image lib
       \<lparr>is_context_manager = False,
        path_to_image = path,
        image = None,
        target_width = (case target_width_arg of None \<Rightarrow> 100 | Some tw \<Rightarrow> tw)\<rparr> w"

definition enter :: "converter \<Rightarrow> converter" where
  "enter self = self\<lparr>is_context_manager := True\<rparr>"

text \<open>\<^verbatim>\<open>__exit__\<close> closes the image and returns nothing, so an exception goes on.\<close>

definition exit_converter :: "converter \<Rightarrow> world \<Rightarrow> world" where
  "exit_converter self w =
     (case image self of
        None \<Rightarrow> w
      | Some img \<Rightarrow> log_msg INFO ''Closing image object(s).'' w)"

text \<open>
  \<^verbatim>\<open>resize_image\<close>: every exception of the body is caught and logged, and the method then
  returns \<^verbatim>\<open>None\<close>.
\<close>

definition resize_image :: "pil \<Rightarrow> converter \<Rightarrow> world \<Rightarrow> image option \<times> world" where
  "resize_image lib self w =
     (case image self of
        None \<Rightarrow> (None, log_msg ERROR ''Resize failed'' w)
      | Some img \<Rightarrow>
          (let w1 = log_msg DEBUG ''OG width | OG height'' w
           in case target_size (target_width self) (width img) (height img) of
                Inl e \<Rightarrow> (None, log_msg ERROR ''Resize failed'' w1)
              | Inr new_size \<Rightarrow>
                  (let w2 = log_msg DEBUG ''Target width | Target height'' w1
                   in case Image_resize lib img new_size of
                        None \<Rightarrow> (None, log_msg ERROR ''Resize failed'' w2)
                      | Some resized \<Rightarrow> (Some resized, w2))))"

text \<open>
  \<^verbatim>\<open>convert_to_greyscale\<close>; on \<^verbatim>\<open>None\<close> the attribute access raises, which is caught too.
\<close>

definition convert_to_greyscale :: "pil \<Rightarrow> image option \<Rightarrow> world \<Rightarrow> image option \<times> world" where
  "convert_to_greyscale lib resized_image w =
     (case resized_image of
        None \<Rightarrow> (None, log_msg ERROR ''Greyscale conversion failed'' w)
      | Some img \<Rightarrow>
          (case Image_convert_L lib img of
             None \<Rightarrow> (None, log_msg ERROR ''Greyscale conversion failed'' w)
           | Some grey \<Rightarrow> (Some grey, w)))"

text \<open>\<^verbatim>\<open>convert_pixel_to_ascii\<close>: the loop \<open>ascii_loop\<close> inside the handler.\<close>

definition convert_pixel_to_ascii :: "image option \<Rightarrow> world \<Rightarrow> string option \<times> world" where
  "convert_pixel_to_ascii resized_greyscale_image w =
     (case resized_greyscale_image of
        None \<Rightarrow> (None, log_msg ERROR ''ASCII conversion failed'' w)
      | Some img \<Rightarrow>
          (case ascii_loop (getdata img) [] of
             Inl e \<Rightarrow> (None, log_msg ERROR ''ASCII conversion failed'' w)
           | Inr ascii_str \<Rightarrow>
               (Some ascii_str, log_msg DEBUG ''ASCII'' (log_msg DEBUG ''Pixels'' w))))"

text \<open>
  The layout loop of \<^verbatim>\<open>convert\<close>:
  \<^verbatim>\<open>
  for i in range(0, len(ascii_str), greyscale_image.width):
      ascii_img += ascii_str[i: i + greyscale_image.width] + "\n"
  \<close>
  \<open>reflow_loop\<close> is the loop from index \<open>i\<close> on for a positive step. A step of 0 never
  reaches it, since \<^verbatim>\<open>range\<close> raises; the guard on \<open>w\<close> only makes the function total.
\<close>

definition newline :: char where
  "newline = CHR 0x0A"

definition slice :: "string \<Rightarrow> nat \<Rightarrow> nat \<Rightarrow> string" where
  "slice s i j = take (j - i) (drop i s)"

function reflow_loop :: "string \<Rightarrow> nat \<Rightarrow> nat \<Rightarrow> string \<Rightarrow> string" where
  "reflow_loop ascii_str w i ascii_img =
     (if w = 0 \<or> length ascii_str \<le> i then ascii_img
      else reflow_loop ascii_str w (i + w) (ascii_img @ slice ascii_str i (i + w) @ [newline]))"
  by pat_completeness auto
termination
  by (relation "measure (\<lambda>(ascii_str, w, i, ascii_img). length ascii_str - i)") auto

declare reflow_loop.simps [simp del]

text \<open>
  The whole statement for an integer width: \<^verbatim>\<open>range\<close> raises \<^verbatim>\<open>ValueError\<close> for the
  step 0 and is empty for a negative step.
\<close>

definition reflow :: "string \<Rightarrow> int \<Rightarrow> py_error + string" where
  "reflow ascii_str w =
     (if w = 0 then Inl ValueError
      else if w < 0 then Inr []
      else Inr (reflow_loop ascii_str (nat w) 0 []))"

text \<open>
  The layout as the specification words it, for comparison with \<open>reflow\<close>: the flat
  string cut into consecutive runs of \<open>w\<close> characters, the last run shorter when the
  length is no multiple of \<open>w\<close>; each run is then followed by a newline.
\<close>

function spec_chunks :: "nat \<Rightarrow> string \<Rightarrow> string list" where
  "spec_chunks w s = (if w = 0 \<or> s = [] then [] else take w s # spec_chunks w (drop w s))"
  by pat_completeness auto
termination
  by (relation "measure (\<lambda>(w, s). length s)") auto

declare spec_chunks.simps [simp del]

definition spec_layout :: "nat \<Rightarrow> string \<Rightarrow> string" where
  "spec_layout w s = concat (map (\<lambda>run. run @ [newline]) (spec_chunks w s))"

text \<open>
  \<^verbatim>\<open>convert\<close>. The three stage methods never raise; \<^verbatim>\<open>len(ascii_str)\<close> raises
  \<^verbatim>\<open>TypeError\<close> on \<^verbatim>\<open>None\<close>, and nothing in \<^verbatim>\<open>convert\<close> catches it.
\<close>

definition convert :: "pil \<Rightarrow> converter \<Rightarrow> world \<Rightarrow> (abort + string) \<times> world" where
  "convert lib self w =
     (let w0 = log_msg INFO ''Converting to ASCII'' w;
          (target_image, w1) = resize_image lib self w0;
          (greyscale_image, w2) = convert_to_greyscale lib target_image w1;
          (ascii_str, w3) = convert_pixel_to_ascii greyscale_image w2
      in case ascii_str of
           None \<Rightarrow> (Inl (Uncaught TypeError), w3)
         | Some s \<Rightarrow>
             (case greyscale_image of
                None \<Rightarrow> (Inl (Uncaught AttributeError), w3)
              | Some grey \<Rightarrow>
                  (case reflow s (width grey) of
                     Inl e \<Rightarrow> (Inl (Uncaught e), w3)
                   | Inr ascii_img \<Rightarrow> (Inr ascii_img, w3))))"

text \<open>
  \<^verbatim>\<open>write_ascii_to_file\<close>: the handler is for \<^verbatim>\<open>IOError\<close>, which is every failure of
  \<open>open_write\<close>.
\<close>

definition write_ascii_to_file :: "config \<Rightarrow> string \<Rightarrow> string \<Rightarrow> world \<Rightarrow> world" where
  "write_ascii_to_file cfg ascii_image file_name w =
     (let w1 = log_msg INFO ''New ASCII image available'' w
      in case open_write (os_path_join (output_path cfg) file_name) ascii_image (fsys w1) of
           None \<Rightarrow> log_msg ERROR ''Unable to write file'' w1
         | Some fs \<Rightarrow> w1\<lparr>fsys := fs\<rparr>)"

section \<open>The script\<close>

text \<open>
  \<^verbatim>\<open>
  output_folder = '/'.join(cfg.output_path.split('/')[:-1]) if '.' in cfg.output_path
                  else cfg.output_path
  \<close>
\<close>

definition output_folder :: "config \<Rightarrow> string" where
  "output_folder cfg =
     (if CHR ''.'' \<in> set (output_path cfg)
      then join_with ''/'' (butlast (split_on CHR ''/'' (output_path cfg)))
      else output_path cfg)"

definition create_output_directory :: "config \<Rightarrow> world \<Rightarrow> world" where
  "create_output_directory cfg w =
     (if \<not> os_path_exists (fsys w) (output_folder cfg)
      then (let w1 = log_msg DEBUG ''Output folder does not exist- creating it.'' w;
                (ok, fs) = Path_mkdir (output_folder cfg) (fsys w1)
            in if ok then w1\<lparr>fsys := fs\<rparr>
               else log_msg ERROR ''Unable to create output folder'' (w1\<lparr>fsys := fs\<rparr>))
      else w)"

text \<open>
  The body under \<^verbatim>\<open>if __name__ == '__main__'\<close>: the exit status of the process and the
  world it leaves. The converter is built with \<^verbatim>\<open>target_width=120\<close>. An exception inside
  the \<^verbatim>\<open>with\<close> block runs \<^verbatim>\<open>__exit__\<close> and goes on to the interpreter.
\<close>

definition main :: "pil \<Rightarrow> config \<Rightarrow> world \<Rightarrow> int \<times> world" where
  "main lib cfg w =
     (let w1 = create_output_directory cfg (log_msg DEBUG ''cfg'' w)
      in case AsciiArtConverter_init lib (image_path cfg) (Some 120) w1 of
           (Inl a, w2) \<Rightarrow> (exit_status a, w2)
         | (Inr aac0, w2) \<Rightarrow>
             (let aac = enter aac0
              in case convert lib aac w2 of
                   (Inl a, w3) \<Rightarrow> (exit_status a, exit_converter aac w3)
                 | (Inr ascii_string, w3) \<Rightarrow>
                     (0, exit_converter aac
                           (write_ascii_to_file cfg ascii_string (output_file_name cfg) w3))))"

text \<open>
  Two names for parts of \<open>main\<close>, used to state what it does once the image is open:
  the converter it has built and entered, and the world at that point.
\<close>

definition main_converter :: "config \<Rightarrow> image \<Rightarrow> converter" where
  "main_converter cfg img =
     \<lparr>is_context_manager = True, path_to_image = image_path cfg, image = Some img,
      target_width = 120\<rparr>"

definition main_loaded :: "config \<Rightarrow> world \<Rightarrow> world" where
  "main_loaded cfg w =
     log_msg INFO ''Loading image'' (create_output_directory cfg (log_msg DEBUG ''cfg'' w))"

section \<open>An example run\<close>

text \<open>
  A concrete environment on which the model is evaluated: an all-black image of 240 by 2
  pixels at \<^verbatim>\<open>black.png\<close>, a library that resamples a black image to any positive size
  and refuses other sizes, an empty working directory, and the default options.
\<close>

definition example_image :: image where
  "example_image = \<lparr>width = 240, height = 2, getdata = replicate 480 0\<rparr>"

definition example_lib :: pil where
  "example_lib =
     \<lparr>Image_open = (\<lambda>path. if path = ''black.png'' then Opened example_image
                             else FileNotFoundError),
      Image_resize = (\<lambda>img sz. if fst sz < 1 \<or> snd sz < 1 then None
                       else Some \<lparr>width = fst sz, height = snd sz,
                                  getdata = replicate (nat (fst sz * snd sz)) 0\<rparr>),
      Image_convert_L = (\<lambda>img. Some img)\<rparr>"

definition example_world :: world where
  "example_world = \<lparr>logged = [], fsys = \<lparr>dirs = {}, files = Map.empty, denied = {}\<rparr>\<rparr>"

definition example_cfg :: config where
  "example_cfg =
     \<lparr>log_level = ''INFO'', image_path = ''black.png'', output_path = ''output'',
      output_file_name = ''ascii_image.txt''\<rparr>"

text \<open>
  Variations of the example: the output directory written with a leading \<^verbatim>\<open>./\<close>, an
  input path at which there is no file, a library that cannot decode the input, and a
  library whose resize raises. \<open>example_text\<close> is the text block of the example image.
\<close>

definition example_cfg_dot :: config where
  "example_cfg_dot = example_cfg\<lparr>output_path := ''./output''\<rparr>"

definition example_cfg_missing :: config where
  "example_cfg_missing = example_cfg\<lparr>image_path := ''missing.png''\<rparr>"

definition example_lib_undecodable :: pil where
  "example_lib_undecodable = example_lib\<lparr>Image_open := \<lambda>path. OtherOpenError\<rparr>"

definition example_lib_no_resize :: pil where
  "example_lib_no_resize = example_lib\<lparr>Image_resize := \<lambda>img sz. None\<rparr>"

definition example_text :: string where
  "example_text = replicate 120 CHR ''@'' @ [newline]"

section \<open>The mapper on pixel intensities\<close>

lemma length_ASCII_CHARS: "length ASCII_CHARS = 11"
  by (simp add: ASCII_CHARS_def)

lemma ramp_index_bounds:
  assumes "0 \<le> p" and "p \<le> 255"
  shows "0 \<le> ramp_index p" and "ramp_index p \<le> 10"
  using assms by (simp_all add: ramp_index_def)

lemma pixel_char_in_range:
  assumes "0 \<le> p" and "p \<le> 255"
  shows "pixel_char p = Inr (ASCII_CHARS ! nat (ramp_index p))"
  using ramp_index_bounds [OF assms]
  by (simp add: pixel_char_def getitem_def length_ASCII_CHARS)


lemma distinct_ASCII_CHARS: "distinct ASCII_CHARS"
  by (simp add: ASCII_CHARS_def)

lemma ramp_entries_single: "s \<in> set ASCII_CHARS \<Longrightarrow> length s = 1"
  by (auto simp add: ASCII_CHARS_def)

lemma ramp_entry_of_pixel:
  assumes "0 \<le> p" and "p \<le> 255"
  shows "ASCII_CHARS ! nat (ramp_index p) \<in> set ASCII_CHARS"
proof -
  have "nat (ramp_index p) < length ASCII_CHARS"
    using ramp_index_bounds [OF assms] by (simp add: length_ASCII_CHARS)
  then show ?thesis by (rule nth_mem)
qed

lemma ascii_loop_in_range:
  assumes "\<forall>p \<in> set pixels. 0 \<le> p \<and> p \<le> 255"
  shows "ascii_loop pixels acc =
           Inr (acc @ concat (map (\<lambda>p. ASCII_CHARS ! nat (ramp_index p)) pixels))"
  using assms
proof (induction pixels arbitrary: acc)
  case Nil
  show ?case by simp
next
  case (Cons p ps)
  then have "pixel_char p = Inr (ASCII_CHARS ! nat (ramp_index p))"
    by (simp add: pixel_char_in_range)
  with Cons show ?case by simp
qed

lemma concat_singletons:
  assumes "\<forall>x \<in> set xs. length (f x) = 1"
  shows "concat (map f xs) = map (\<lambda>x. hd (f x)) xs"
  using assms
proof (induction xs)
  case Nil
  show ?case by simp
next
  case (Cons x xs)
  then have "length (f x) = 1" by simp
  then have "f x = [hd (f x)]"
    by (cases "f x") simp_all
  with Cons show ?case by simp
qed

lemma ascii_str_as_map:
  assumes "\<forall>p \<in> set pixels. 0 \<le> p \<and> p \<le> 255"
  shows "ascii_loop pixels [] = Inr (map (\<lambda>p. hd (ASCII_CHARS ! nat (ramp_index p))) pixels)"
proof -
  have "\<forall>p \<in> set pixels. length (ASCII_CHARS ! nat (ramp_index p)) = 1"
    using assms by (blast intro: ramp_entries_single ramp_entry_of_pixel)
  then show ?thesis
    by (simp add: ascii_loop_in_range [OF assms] concat_singletons)
qed

lemma hd_ramp_entry:
  assumes "0 \<le> p" and "p \<le> 255"
  shows "[hd (ASCII_CHARS ! nat (ramp_index p))] = ASCII_CHARS ! nat (ramp_index p)"
proof -
  have "length (ASCII_CHARS ! nat (ramp_index p)) = 1"
    using assms by (blast intro: ramp_entries_single ramp_entry_of_pixel)
  then show ?thesis
    by (cases "ASCII_CHARS ! nat (ramp_index p)") simp_all
qed

lemma convert_pixel_to_ascii_in_range:
  assumes "\<forall>p \<in> set (getdata img). 0 \<le> p \<and> p \<le> 255"
  shows "convert_pixel_to_ascii (Some img) w =
           (Some (map (\<lambda>p. hd (ASCII_CHARS ! nat (ramp_index p))) (getdata img)),
            log_msg DEBUG ''ASCII'' (log_msg DEBUG ''Pixels'' w))"
  by (simp add: convert_pixel_to_ascii_def ascii_str_as_map [OF assms])

section \<open>Claims about the mapper\<close>

text \<open>
  Claim C6. For every pixel intensity from 0 to 255 the ramp index \<^verbatim>\<open>intensity // 25\<close> lies
  between 0 and 10, so the lookup into the 11-element ramp is in bounds: it returns the
  ramp entry at that index and never takes the \<^verbatim>\<open>IndexError\<close> branch.
\<close>

theorem ramp_lookup_in_bounds:
  assumes "0 \<le> p" and "p \<le> 255"
  shows "0 \<le> ramp_index p \<and> ramp_index p \<le> 10
         \<and> nat (ramp_index p) < length ASCII_CHARS
         \<and> pixel_char p = Inr (ASCII_CHARS ! nat (ramp_index p))
         \<and> pixel_char p \<noteq> Inl IndexError"
  using ramp_index_bounds [OF assms] pixel_char_in_range [OF assms]
  by (simp add: length_ASCII_CHARS)

theorem ramp_lookup_in_bounds_witness:
  "(0::int) \<le> 255 \<and> ramp_index 255 = 10 \<and> pixel_char 255 = Inr ''.''
   \<and> pixel_char 255 \<noteq> Inl IndexError"
  using ramp_lookup_in_bounds [of 255]
  by (simp add: ramp_index_def ASCII_CHARS_def)

text \<open>
  Claim C10. The mapping from intensity to character is monotone: for intensities
  \<open>p \<le> q\<close> in the range 0 to 255 the ramp index of \<open>p\<close> is at most the ramp index of
  \<open>q\<close>. Both lookups succeed at those indices, and the ramp has no repeated entry, so
  the character of the brighter pixel never stands earlier in the ramp.
\<close>

theorem ramp_index_monotone:
  assumes "0 \<le> p" and "p \<le> q" and "q \<le> 255"
  shows "ramp_index p \<le> ramp_index q
         \<and> pixel_char p = Inr (ASCII_CHARS ! nat (ramp_index p))
         \<and> pixel_char q = Inr (ASCII_CHARS ! nat (ramp_index q))
         \<and> nat (ramp_index p) \<le> nat (ramp_index q)
         \<and> nat (ramp_index q) < length ASCII_CHARS
         \<and> distinct ASCII_CHARS"
proof -
  have "ramp_index p \<le> ramp_index q"
    using \<open>p \<le> q\<close> by (simp add: ramp_index_def zdiv_mono1)
  moreover have "0 \<le> q" and "p \<le> 255"
    using assms by simp_all
  ultimately show ?thesis
    using assms ramp_index_bounds [of q] pixel_char_in_range [of p] pixel_char_in_range [of q]
    by (auto simp add: length_ASCII_CHARS distinct_ASCII_CHARS)
qed

theorem ramp_index_monotone_witness:
  "(0::int) \<le> 24 \<and> (24::int) \<le> 25 \<and> (25::int) \<le> 255
   \<and> ramp_index 24 = 0 \<and> ramp_index 25 = 1
   \<and> pixel_char 24 = Inr ''@'' \<and> pixel_char 25 = Inr ''#''"
  using ramp_index_monotone [of 24 25]
  by (simp add: ramp_index_def ASCII_CHARS_def)

text \<open>
  Claim C2. For every greyscale image whose intensities lie between 0 and 255 the mapper
  returns a string with one character for each pixel, in the order of the data; the
  character of a pixel is the entry of the fixed 11-character ramp at the index of its
  intensity, so every character produced belongs to the ramp. In particular a pixel of
  intensity 0 is mapped to \<^verbatim>\<open>@\<close>, one of intensity 255 to \<^verbatim>\<open>.\<close>, and one of intensity 125
  to the entry at index 5, which is \<^verbatim>\<open>*\<close>.
\<close>

theorem ascii_chars_in_ramp:
  assumes "\<forall>p \<in> set (getdata img). 0 \<le> p \<and> p \<le> 255"
  shows "ASCII_CHARS = [''@'', ''#'', ''$'', ''%'', ''?'', ''*'', ''+'', '';'', '':'', '','', ''.'']
         \<and> (\<exists>s. fst (convert_pixel_to_ascii (Some img) w) = Some s
              \<and> length s = length (getdata img)
              \<and> (\<forall>i < length s.
                    [s ! i] \<in> set ASCII_CHARS
                    \<and> [s ! i] = ASCII_CHARS ! nat (ramp_index (getdata img ! i))
                    \<and> (getdata img ! i = 0 \<longrightarrow> s ! i = CHR ''@'')
                    \<and> (getdata img ! i = 255 \<longrightarrow> s ! i = CHR ''.'')
                    \<and> (getdata img ! i = 125 \<longrightarrow>
                          ramp_index (getdata img ! i) = 5 \<and> s ! i = CHR ''*'')))"
proof -
  let ?c = "\<lambda>p. hd (ASCII_CHARS ! nat (ramp_index p))"
  let ?s = "map ?c (getdata img)"
  have chars: "?c 0 = CHR ''@''" "?c 255 = CHR ''.''" "?c 125 = CHR ''*''" "ramp_index 125 = 5"
    by (simp_all add: ramp_index_def ASCII_CHARS_def)
  have "[?s ! i] \<in> set ASCII_CHARS
        \<and> [?s ! i] = ASCII_CHARS ! nat (ramp_index (getdata img ! i))
        \<and> (getdata img ! i = 0 \<longrightarrow> ?s ! i = CHR ''@'')
        \<and> (getdata img ! i = 255 \<longrightarrow> ?s ! i = CHR ''.'')
        \<and> (getdata img ! i = 125 \<longrightarrow> ramp_index (getdata img ! i) = 5 \<and> ?s ! i = CHR ''*'')"
    if "i < length ?s" for i
  proof -
    from that have "getdata img ! i \<in> set (getdata img)" by simp
    with assms have range: "0 \<le> getdata img ! i" "getdata img ! i \<le> 255" by simp_all
    show ?thesis
      using that hd_ramp_entry [OF range] ramp_entry_of_pixel [OF range] chars
      by auto
  qed
  then have pos: "\<forall>i < length ?s.
        [?s ! i] \<in> set ASCII_CHARS
        \<and> [?s ! i] = ASCII_CHARS ! nat (ramp_index (getdata img ! i))
        \<and> (getdata img ! i = 0 \<longrightarrow> ?s ! i = CHR ''@'')
        \<and> (getdata img ! i = 255 \<longrightarrow> ?s ! i = CHR ''.'')
        \<and> (getdata img ! i = 125 \<longrightarrow> ramp_index (getdata img ! i) = 5 \<and> ?s ! i = CHR ''*'')"
    by blast
  have conv: "fst (convert_pixel_to_ascii (Some img) w) = Some ?s"
    by (simp add: convert_pixel_to_ascii_in_range [OF assms])
  have len: "length ?s = length (getdata img)" by simp
  have ramp: "ASCII_CHARS
                = [''@'', ''#'', ''$'', ''%'', ''?'', ''*'', ''+'', '';'', '':'', '','', ''.'']"
    by (simp add: ASCII_CHARS_def)
  from conv len pos
  have "\<exists>s. fst (convert_pixel_to_ascii (Some img) w) = Some s
              \<and> length s = length (getdata img)
              \<and> (\<forall>i < length s.
                    [s ! i] \<in> set ASCII_CHARS
                    \<and> [s ! i] = ASCII_CHARS ! nat (ramp_index (getdata img ! i))
                    \<and> (getdata img ! i = 0 \<longrightarrow> s ! i = CHR ''@'')
                    \<and> (getdata img ! i = 255 \<longrightarrow> s ! i = CHR ''.'')
                    \<and> (getdata img ! i = 125 \<longrightarrow>
                          ramp_index (getdata img ! i) = 5 \<and> s ! i = CHR ''*''))"
    by (intro exI [of _ ?s] conjI)
  with ramp show ?thesis by (rule conjI)
qed

theorem ascii_chars_in_ramp_witness:
  "fst (convert_pixel_to_ascii (Some \<lparr>width = 3, height = 1, getdata = [0, 125, 255]\<rparr>)
          example_world)
       = Some ''@*.''
   \<and> fst (convert_pixel_to_ascii (Some \<lparr>width = 1, height = 1, getdata = [255]\<rparr>)
            example_world)
       = Some ''.''"
proof -
  let ?a = "\<lparr>width = 3, height = 1, getdata = [0, 125, 255]\<rparr>"
  let ?b = "\<lparr>width = 1, height = 1, getdata = [255]\<rparr>"
  have "\<forall>p \<in> set (getdata ?a). 0 \<le> p \<and> p \<le> 255" by simp
  from ascii_chars_in_ramp [OF this, of example_world] obtain s
    where s: "fst (convert_pixel_to_ascii (Some ?a) example_world) = Some s"
      and len: "length s = length (getdata ?a)"
      and pos: "\<forall>i < length s.
                  (getdata ?a ! i = 0 \<longrightarrow> s ! i = CHR ''@'')
                  \<and> (getdata ?a ! i = 255 \<longrightarrow> s ! i = CHR ''.'')
                  \<and> (getdata ?a ! i = 125 \<longrightarrow> s ! i = CHR ''*'')"
    by blast
  from len have len3: "length s = 3" by simp
  have "s ! 0 = CHR ''@''" "s ! 1 = CHR ''*''" "s ! 2 = CHR ''.''"
    using pos [rule_format, of 0] pos [rule_format, of 1] pos [rule_format, of 2] len3
    by simp_all
  with len3 have a: "s = ''@*.''"
    by (intro nth_equalityI) (auto simp add: less_Suc_eq numeral_3_eq_3 numeral_2_eq_2)
  have "\<forall>p \<in> set (getdata ?b). 0 \<le> p \<and> p \<le> 255" by simp
  from ascii_chars_in_ramp [OF this, of example_world] obtain t
    where t: "fst (convert_pixel_to_ascii (Some ?b) example_world) = Some t"
      and len: "length t = length (getdata ?b)"
      and pos: "\<forall>i < length t. getdata ?b ! i = 255 \<longrightarrow> t ! i = CHR ''.''"
    by blast
  from len have len1: "length t = 1" by simp
  have "t ! 0 = CHR ''.''"
    using pos [rule_format, of 0] len1 by simp
  with len1 have "t = ''.''"
    by (intro nth_equalityI) simp_all
  with a s t show ?thesis by simp
qed

text \<open>
  Claim C4. For every greyscale image of width \<open>W\<close> and height \<open>H\<close> whose data hold
  \<open>W * H\<close> intensities between 0 and 255, the flat string returned by the mapper has
  length exactly \<open>W * H\<close>, and its character at position \<open>i\<close> is the ramp entry of the
  pixel at position \<open>i\<close> of the row-major data.
\<close>

theorem ascii_length_is_width_times_height:
  assumes "0 \<le> width img" and "0 \<le> height img"
    and "int (length (getdata img)) = width img * height img"
    and "\<forall>p \<in> set (getdata img). 0 \<le> p \<and> p \<le> 255"
  shows "\<exists>s. fst (convert_pixel_to_ascii (Some img) w) = Some s
             \<and> int (length s) = width img * height img
             \<and> (\<forall>i < length s. [s ! i] = ASCII_CHARS ! nat (ramp_index (getdata img ! i)))"
proof -
  let ?s = "map (\<lambda>p. hd (ASCII_CHARS ! nat (ramp_index p))) (getdata img)"
  have "\<forall>i < length ?s. [?s ! i] = ASCII_CHARS ! nat (ramp_index (getdata img ! i))"
    using assms(4) by (simp add: hd_ramp_entry)
  then show ?thesis
    using assms(3) by (simp add: convert_pixel_to_ascii_in_range [OF assms(4)])
qed

theorem ascii_length_is_width_times_height_witness:
  "fst (convert_pixel_to_ascii
          (Some \<lparr>width = 3, height = 2, getdata = [0, 30, 60, 200, 225, 255]\<rparr>)
          example_world) = Some ''@#$:,.''
   \<and> length ''@#$:,.'' = 3 * 2"
  using ascii_length_is_width_times_height
          [of "\<lparr>width = 3, height = 2, getdata = [0, 30, 60, 200, 225, 255]\<rparr>" example_world]
  by (simp add: convert_pixel_to_ascii_def pixel_char_def getitem_def ramp_index_def
      ASCII_CHARS_def)



section \<open>The layout loop and the layout of the specification\<close>

lemma spec_chunks_Nil: "spec_chunks w [] = []"
  by (simp add: spec_chunks.simps)

lemma spec_chunks_Cons:
  "0 < w \<Longrightarrow> s \<noteq> [] \<Longrightarrow> spec_chunks w s = take w s # spec_chunks w (drop w s)"
  by (simp add: spec_chunks.simps [of w s])

lemma reflow_loop_layout:
  assumes "0 < w"
  shows "reflow_loop s w i acc = acc @ spec_layout w (drop i s)"
  using assms
proof (induction s w i acc rule: reflow_loop.induct)
  case (1 s w i acc)
  show ?case
  proof (cases "length s \<le> i")
    case True
    then show ?thesis
      by (simp add: reflow_loop.simps [of s w i acc] spec_layout_def spec_chunks_Nil)
  next
    case False
    then have rest: "drop i s \<noteq> []" by simp
    have "reflow_loop s w i acc = reflow_loop s w (i + w) (acc @ slice s i (i + w) @ [newline])"
      using False "1.prems" by (simp add: reflow_loop.simps [of s w i acc])
    also have "\<dots> = (acc @ slice s i (i + w) @ [newline]) @ spec_layout w (drop (i + w) s)"
      using False "1.prems" by (intro "1.IH") simp_all
    also have "drop (i + w) s = drop w (drop i s)"
      by (simp add: add.commute)
    finally show ?thesis
      using rest "1.prems"
      by (simp add: spec_layout_def spec_chunks_Cons [of w "drop i s"] slice_def)
  qed
qed

lemma concat_spec_chunks: "0 < w \<Longrightarrow> concat (spec_chunks w s) = s"
proof (induction w s rule: spec_chunks.induct)
  case (1 w s)
  then show ?case
    by (cases "s = []") (simp_all add: spec_chunks_Nil spec_chunks_Cons)
qed

lemma spec_chunks_lengths:
  "0 < w \<Longrightarrow> run \<in> set (spec_chunks w s) \<Longrightarrow> run \<noteq> [] \<and> length run \<le> w"
proof (induction w s rule: spec_chunks.induct)
  case (1 w s)
  then show ?case
    by (cases "s = []") (auto simp add: spec_chunks_Nil spec_chunks_Cons)
qed

lemma spec_chunks_full:
  "0 < w \<Longrightarrow> run \<in> set (butlast (spec_chunks w s)) \<Longrightarrow> length run = w"
proof (induction w s rule: spec_chunks.induct)
  case (1 w s)
  show ?case
  proof (cases "s = []")
    case True
    with "1.prems" show ?thesis by (simp add: spec_chunks_Nil)
  next
    case False
    show ?thesis
    proof (cases "spec_chunks w (drop w s) = []")
      case True
      with False "1.prems" show ?thesis by (simp add: spec_chunks_Cons)
    next
      case more: False
      then have "drop w s \<noteq> []"
        by (auto simp add: spec_chunks_Nil)
      then have "w < length s" by simp
      then have "length (take w s) = w" by simp
      with False more "1.prems" "1.IH" show ?thesis
        by (auto simp add: spec_chunks_Cons)
    qed
  qed
qed

lemma strip_spec_layout:
  assumes "0 < w" and "newline \<notin> set s"
  shows "filter (\<lambda>c. c \<noteq> newline) (spec_layout w s) = s"
proof -
  have "filter (\<lambda>c. c \<noteq> newline) (concat (map (\<lambda>run. run @ [newline]) runs)) = concat runs"
    if "newline \<notin> set (concat runs)" for runs
    using that by (induction runs) (auto simp add: filter_id_conv)
  from this [of "spec_chunks w s"] show ?thesis
    using assms by (simp add: spec_layout_def concat_spec_chunks)
qed

lemma pixel_char_in_ramp: "pixel_char p = Inr c \<Longrightarrow> c \<in> set ASCII_CHARS"
  by (auto simp add: pixel_char_def getitem_def split: if_splits)

lemma ramp_has_no_newline: "c \<in> set ASCII_CHARS \<Longrightarrow> newline \<notin> set c"
  by (auto simp add: ASCII_CHARS_def newline_def)

lemma ascii_loop_no_newline:
  "ascii_loop pixels acc = Inr s \<Longrightarrow> newline \<notin> set acc \<Longrightarrow> newline \<notin> set s"
proof (induction pixels arbitrary: acc)
  case Nil
  then show ?case by simp
next
  case (Cons p ps)
  from Cons.prems(1) obtain c where c: "pixel_char p = Inr c"
    and rest: "ascii_loop ps (acc @ c) = Inr s"
    by (auto split: sum.splits)
  have "newline \<notin> set (acc @ c)"
    using Cons.prems(2) pixel_char_in_ramp [OF c] by (simp add: ramp_has_no_newline)
  with rest show ?case by (rule Cons.IH)
qed

lemma mapper_no_newline:
  assumes "fst (convert_pixel_to_ascii g v) = Some s"
  shows "newline \<notin> set s"
proof (cases g)
  case None
  with assms show ?thesis by (simp add: convert_pixel_to_ascii_def)
next
  case (Some img)
  with assms have "ascii_loop (getdata img) [] = Inr s"
    by (simp add: convert_pixel_to_ascii_def split: sum.splits)
  then show ?thesis by (rule ascii_loop_no_newline) simp
qed

section \<open>Claims about the layout loop\<close>

text \<open>
  Claim C5. For every flat character string \<open>s\<close> and every width \<open>w \<ge> 1\<close>, the layout
  loop returns \<open>s\<close> cut into consecutive runs of exactly \<open>w\<close> characters, the final run
  as it is when shorter, each run followed by a newline; the runs put together are \<open>s\<close>.
  Removing all newline characters from that text gives \<open>s\<close> back: for every \<open>s\<close> that
  holds no newline, and so for every string that the mapper returns, whatever the image,
  since the ramp has no newline.
\<close>

theorem reflow_roundtrip:
  assumes "1 \<le> w"
  shows "reflow s w = Inr (spec_layout (nat w) s)
         \<and> concat (spec_chunks (nat w) s) = s
         \<and> (\<forall>run \<in> set (butlast (spec_chunks (nat w) s)). int (length run) = w)
         \<and> (\<forall>run \<in> set (spec_chunks (nat w) s). run \<noteq> [] \<and> int (length run) \<le> w)
         \<and> (newline \<notin> set s \<longrightarrow>
               filter (\<lambda>c. c \<noteq> newline) (spec_layout (nat w) s) = s)
         \<and> (\<forall>g v. fst (convert_pixel_to_ascii g v) = Some s \<longrightarrow>
               filter (\<lambda>c. c \<noteq> newline) (spec_layout (nat w) s) = s)"
proof -
  have w: "0 < nat w" using assms by simp
  have "reflow s w = Inr (spec_layout (nat w) s)"
    using assms reflow_loop_layout [OF w, of s 0 "[]"] by (simp add: reflow_def)
  moreover have "\<forall>run \<in> set (butlast (spec_chunks (nat w) s)). int (length run) = w"
    using spec_chunks_full [OF w] assms by fastforce
  moreover have "\<forall>run \<in> set (spec_chunks (nat w) s). run \<noteq> [] \<and> int (length run) \<le> w"
    using spec_chunks_lengths [OF w] assms by fastforce
  moreover have "newline \<notin> set s \<longrightarrow>
      filter (\<lambda>c. c \<noteq> newline) (spec_layout (nat w) s) = s"
    using strip_spec_layout [OF w] by blast
  moreover have "\<forall>g v. fst (convert_pixel_to_ascii g v) = Some s \<longrightarrow>
      filter (\<lambda>c. c \<noteq> newline) (spec_layout (nat w) s) = s"
    using strip_spec_layout [OF w] mapper_no_newline by blast
  ultimately show ?thesis
    using concat_spec_chunks [OF w] by simp
qed

theorem reflow_roundtrip_witness:
  "reflow ''@#$%?*+'' 3 = Inr (''@#$'' @ [newline] @ ''%?*'' @ [newline] @ ''+'' @ [newline])
   \<and> spec_chunks 3 ''@#$%?*+'' = [''@#$'', ''%?*'', ''+'']
   \<and> fst (convert_pixel_to_ascii
             (Some \<lparr>width = 3, height = 3, getdata = [0, 25, 50, 75, 100, 125, 150]\<rparr>)
             example_world) = Some ''@#$%?*+''
   \<and> filter (\<lambda>c. c \<noteq> newline) (''@#$'' @ [newline] @ ''%?*'' @ [newline] @ ''+'' @ [newline])
       = ''@#$%?*+''"
proof -
  have chunks: "spec_chunks 3 ''@#$%?*+'' = [''@#$'', ''%?*'', ''+'']"
    by (simp add: spec_chunks.simps)
  have mapped: "fst (convert_pixel_to_ascii
             (Some \<lparr>width = 3, height = 3, getdata = [0, 25, 50, 75, 100, 125, 150]\<rparr>)
             example_world) = Some ''@#$%?*+''"
    by (simp add: convert_pixel_to_ascii_def pixel_char_def getitem_def ramp_index_def
        ASCII_CHARS_def)
  show ?thesis
    using reflow_roundtrip [of 3 "''@#$%?*+''"] chunks mapped
    by (simp add: spec_layout_def newline_def)
qed

section \<open>Rounding to binary64\<close>

lemma two_powi_pos: "(0::rat) < 2 powi q"
  by (simp add: zero_less_power_int)

lemma two_powi_nat: "0 \<le> q \<Longrightarrow> (2::rat) powi q = of_int (2 ^ nat q)"
  by (simp add: power_int_nonneg_exp)

lemma two_powi_less_cancel: "(2::rat) powi a < 2 powi b \<Longrightarrow> a < b"
proof (rule ccontr)
  assume less: "(2::rat) powi a < 2 powi b" and "\<not> a < b"
  then have "b \<le> a" by simp
  then have "(2::rat) powi b \<le> 2 powi a"
    by (intro power_int_increasing) simp_all
  with less show False by simp
qed

lemma two_powi_mono: "a \<le> b \<Longrightarrow> (2::rat) powi a \<le> 2 powi b"
  by (intro power_int_increasing) simp_all

lemma two_powi_split: "(2::rat) powi (a + b) = 2 powi a * 2 powi b"
  by (simp add: power_int_add)

lemma two_powi_inverse: "(2::rat) powi (- a) = 1 / 2 powi a"
  by (simp add: power_int_minus divide_inverse)

lemma bitlen_pos: "0 < n \<Longrightarrow> 1 \<le> bitlen n"
  using bitlen_eq_zero_iff [of n] bitlen_nonneg [of n] by linarith

lemma floor_log2_bounds:
  assumes "0 < a"
  shows "2 powi (floor_log2 a) \<le> a \<and> a < 2 powi (floor_log2 a + 1)"
proof (cases "1 \<le> a")
  case True
  define n where "n = \<lfloor>a\<rfloor>"
  define b where "b = bitlen n"
  have n: "1 \<le> n" using True by (simp add: n_def le_floor_iff)
  then have b: "1 \<le> b" by (simp add: b_def bitlen_pos)
  have bounds: "2 ^ nat (b - 1) \<le> n" "n < 2 ^ nat b"
    using bitlen_bounds [of n] n by (simp_all add: b_def)
  have e: "floor_log2 a = b - 1"
    using True by (simp add: floor_log2_def n_def b_def)
  have "(2::rat) powi (b - 1) = of_int (2 ^ nat (b - 1))"
    using b by (intro two_powi_nat) simp
  also have "\<dots> \<le> of_int n"
    using bounds(1) by (simp only: of_int_le_iff)
  also have "\<dots> \<le> a"
    by (simp add: n_def)
  finally have lower: "2 powi (b - 1) \<le> a" .
  have "a < of_int n + 1"
    using floor_correct [of a] by (simp add: n_def)
  also have "\<dots> = of_int (n + 1)" by simp
  also have "\<dots> \<le> of_int (2 ^ nat b)"
    using bounds(2) by (simp only: of_int_le_iff)
  also have "\<dots> = (2::rat) powi b"
    using b by (simp add: two_powi_nat)
  finally have "a < 2 powi b" .
  with lower show ?thesis by (simp add: e)
next
  case False
  define r where "r = 1 / a"
  define m where "m = \<lceil>r\<rceil> - 1"
  define b where "b = bitlen m"
  have r: "1 < r" using False assms by (simp add: r_def)
  then have m: "1 \<le> m" by (simp add: m_def less_ceiling_iff)
  then have b: "1 \<le> b" by (simp add: b_def bitlen_pos)
  have bounds: "2 ^ nat (b - 1) \<le> m" "m < 2 ^ nat b"
    using bitlen_bounds [of m] m by (simp_all add: b_def)
  have e: "floor_log2 a = - b"
    using False by (simp add: floor_log2_def r_def m_def b_def)
  have "r \<le> of_int (m + 1)"
    by (simp add: m_def)
  also have "\<dots> \<le> of_int (2 ^ nat b)"
    using bounds(2) by (simp only: of_int_le_iff)
  also have "\<dots> = (2::rat) powi b"
    using b by (simp add: two_powi_nat)
  finally have "1 / a \<le> 2 powi b" by (simp add: r_def)
  then have lower: "2 powi (- b) \<le> a"
    using assms two_powi_pos [of b] by (simp add: two_powi_inverse field_simps)
  have "(2::rat) powi (b - 1) = of_int (2 ^ nat (b - 1))"
    using b by (intro two_powi_nat) simp
  also have "\<dots> \<le> of_int m"
    using bounds(1) by (simp only: of_int_le_iff)
  also have "\<dots> < r"
    using ceiling_correct [of r] by (simp add: m_def)
  finally have "2 powi (b - 1) < 1 / a" by (simp add: r_def)
  then have "a < 1 / 2 powi (b - 1)"
    using assms two_powi_pos [of "b - 1"] by (simp add: field_simps)
  then have "a < 2 powi (- b + 1)"
    using two_powi_inverse [of "b - 1"] by simp
  with lower show ?thesis by (simp add: e)
qed

lemma floor_log2_unique:
  assumes "2 powi e \<le> a" and "a < 2 powi (e + 1)"
  shows "floor_log2 a = e"
proof -
  have "0 < a" using two_powi_pos [of e] assms(1) by (rule less_le_trans)
  note b = floor_log2_bounds [OF this]
  have "(2::rat) powi e < 2 powi (floor_log2 a + 1)" using assms(1) b by simp
  then have "e < floor_log2 a + 1" by (rule two_powi_less_cancel)
  moreover have "(2::rat) powi floor_log2 a < 2 powi (e + 1)" using assms(2) b by simp
  then have "floor_log2 a < e + 1" by (rule two_powi_less_cancel)
  ultimately show ?thesis by simp
qed

lemma round_half_even_of_int: "round_half_even (of_int n) = n"
  by (simp add: round_half_even_def)

lemma round_half_even_le:
  assumes "r \<le> of_int n"
  shows "round_half_even r \<le> n"
proof (cases "r = of_int \<lfloor>r\<rfloor>")
  case True
  then have "round_half_even r = \<lfloor>r\<rfloor>"
    using round_half_even_of_int [of "\<lfloor>r\<rfloor>"] by simp
  moreover have "\<lfloor>r\<rfloor> \<le> n" using assms by (simp add: floor_le_iff)
  ultimately show ?thesis by simp
next
  case False
  then have "of_int \<lfloor>r\<rfloor> < r" by (auto simp add: less_le)
  then have "of_int \<lfloor>r\<rfloor> < (of_int n :: rat)" using assms by simp
  then have "\<lfloor>r\<rfloor> + 1 \<le> n" by simp
  moreover have "round_half_even r \<le> \<lfloor>r\<rfloor> + 1"
    by (simp add: round_half_even_def Let_def)
  ultimately show ?thesis by simp
qed

lemma round_half_even_ge:
  assumes "of_int n \<le> r"
  shows "n \<le> round_half_even r"
proof -
  have "n \<le> \<lfloor>r\<rfloor>" using assms by (simp add: le_floor_iff)
  moreover have "\<lfloor>r\<rfloor> \<le> round_half_even r"
    by (simp add: round_half_even_def Let_def)
  ultimately show ?thesis by simp
qed


lemma is_doubleI:
  assumes "y = of_int m * 2 powi q" and "\<bar>m\<bar> < 2 ^ 53" and "- 1074 \<le> q"
    and "\<bar>y\<bar> < 2 ^ 1024"
  shows "is_double y"
  using assms unfolding is_double_def by blast

lemma ulp_exponent_le:
  assumes "0 < a" and "a < 2 powi (53 + q)" and "- 1074 \<le> q"
  shows "ulp_exponent a \<le> q"
proof -
  have "2 powi (floor_log2 a) \<le> a"
    using floor_log2_bounds [OF assms(1)] by simp
  then have "(2::rat) powi (floor_log2 a) < 2 powi (53 + q)"
    using assms(2) by simp
  then have "floor_log2 a < 53 + q" by (rule two_powi_less_cancel)
  then show ?thesis using assms(3) by (simp add: ulp_exponent_def)
qed

lemma multiple_of_ulp:
  assumes "q' \<le> q"
  shows "of_int m * 2 powi q / 2 powi q' = (of_int (m * 2 ^ nat (q - q')) :: rat)"
proof -
  have "(2::rat) powi q = 2 powi (q - q') * 2 powi q'"
    using two_powi_split [of "q - q'" q'] by simp
  moreover have "(2::rat) powi (q - q') = of_int (2 ^ nat (q - q'))"
    using assms by (intro two_powi_nat) simp
  ultimately show ?thesis
    using two_powi_pos [of q'] by simp
qed

lemma round_double_exact:
  assumes "is_double y"
  shows "round_double y = Some y"
proof (cases "y = 0")
  case True
  then show ?thesis by (simp add: round_double_def)
next
  case False
  from assms obtain m q where y: "y = of_int m * 2 powi q" and m: "\<bar>m\<bar> < 2 ^ 53"
    and q: "- 1074 \<le> q" and fin: "\<bar>y\<bar> < 2 ^ 1024"
    unfolding is_double_def by blast
  define a where "a = \<bar>y\<bar>"
  define q' where "q' = ulp_exponent a"
  have a: "a = of_int \<bar>m\<bar> * 2 powi q"
    using two_powi_pos [of q] by (simp add: a_def y abs_mult)
  have "0 < a" using False by (simp add: a_def)
  moreover have "a < 2 powi (53 + q)"
  proof -
    have "(of_int \<bar>m\<bar> :: rat) < of_int (2 ^ 53)"
      using m by (simp only: of_int_less_iff)
    then have "a < of_int (2 ^ 53) * 2 powi q"
      using two_powi_pos [of q] by (simp add: a)
    also have "\<dots> = 2 powi (53 + q)"
      by (simp add: two_powi_split)
    finally show ?thesis .
  qed
  ultimately have "q' \<le> q"
    unfolding q'_def using q by (rule ulp_exponent_le)
  then have "a / 2 powi q' = of_int (\<bar>m\<bar> * 2 ^ nat (q - q'))"
    unfolding a by (rule multiple_of_ulp)
  then have "of_int (round_half_even (a / 2 powi q')) * 2 powi q' = a"
    using two_powi_pos [of q'] by (simp only: round_half_even_of_int) (simp add: field_simps)
  moreover have "\<not> 2 ^ 1024 \<le> a" using fin by (simp add: a_def)
  moreover have "sgn y * a = y" by (simp add: a_def sgn_mult_abs)
  ultimately show ?thesis
    using False by (simp add: round_double_def Let_def a_def [symmetric] q'_def [symmetric])
qed

lemma round_double_le:
  assumes "0 < x" and "x \<le> y" and "is_double y"
  shows "\<exists>r. round_double x = Some r \<and> 0 \<le> r \<and> r \<le> y"
proof -
  from assms(3) obtain m q where y: "y = of_int m * 2 powi q" and m: "\<bar>m\<bar> < 2 ^ 53"
    and q: "- 1074 \<le> q" and fin: "\<bar>y\<bar> < 2 ^ 1024"
    unfolding is_double_def by blast
  define q' where "q' = ulp_exponent x"
  define r :: rat where "r = of_int (round_half_even (x / 2 powi q')) * 2 powi q'"
  have "0 < y" using assms by simp
  have "y < 2 powi (53 + q)"
  proof -
    have "(of_int m :: rat) \<le> of_int \<bar>m\<bar>" by simp
    also have "\<dots> < of_int (2 ^ 53)"
      using m by (simp only: of_int_less_iff)
    finally have "y < of_int (2 ^ 53) * 2 powi q"
      using two_powi_pos [of q] by (simp add: y)
    also have "\<dots> = 2 powi (53 + q)"
      by (simp add: two_powi_split)
    finally show ?thesis .
  qed
  then have "x < 2 powi (53 + q)" using assms(2) by simp
  with assms(1) have "q' \<le> q"
    unfolding q'_def using q by (rule ulp_exponent_le)
  then have multiple: "y / 2 powi q' = of_int (m * 2 ^ nat (q - q'))"
    unfolding y by (rule multiple_of_ulp)
  have "x / 2 powi q' \<le> y / 2 powi q'"
    using assms(2) two_powi_pos [of q'] by (simp add: divide_right_mono)
  then have "round_half_even (x / 2 powi q') \<le> m * 2 ^ nat (q - q')"
    unfolding multiple by (rule round_half_even_le)
  then have "(of_int (round_half_even (x / 2 powi q')) :: rat) \<le> of_int (m * 2 ^ nat (q - q'))"
    by (simp only: of_int_le_iff)
  then have "r \<le> y / 2 powi q' * 2 powi q'"
    unfolding r_def multiple using two_powi_pos [of q'] by (simp only: mult_le_cancel_right_pos)
  then have upper: "r \<le> y" using two_powi_pos [of q'] by simp
  have "0 \<le> x / 2 powi q'"
    using assms(1) two_powi_pos [of q'] by simp
  then have "0 \<le> round_half_even (x / 2 powi q')"
    using round_half_even_ge [of 0 "x / 2 powi q'"] by simp
  then have lower: "0 \<le> r"
    using two_powi_pos [of q'] by (simp add: r_def)
  have "\<not> 2 ^ 1024 \<le> r" using upper fin \<open>0 < y\<close> by simp
  then have "round_double x = Some r"
    using assms(1) by (simp add: round_double_def Let_def q'_def [symmetric] r_def [symmetric])
  with lower upper show ?thesis by simp
qed


lemma significand_le:
  assumes "0 < a"
  shows "round_half_even (a / 2 powi (ulp_exponent a)) \<le> 2 ^ 53"
proof -
  define e where "e = floor_log2 a"
  define q where "q = ulp_exponent a"
  have "e - 52 \<le> q" by (simp add: q_def e_def ulp_exponent_def)
  then have "53 + q \<ge> e + 1" by simp
  then have "(2::rat) powi (e + 1) \<le> 2 powi (53 + q)" by (rule two_powi_mono)
  moreover have "a < 2 powi (e + 1)"
    using floor_log2_bounds [OF assms] by (simp add: e_def)
  ultimately have "a < 2 powi (53 + q)" by simp
  then have "a < of_int (2 ^ 53) * 2 powi q" by (simp add: two_powi_split)
  then have "a / 2 powi q \<le> of_int (2 ^ 53)"
    using two_powi_pos [of q] by (simp add: field_simps)
  then show ?thesis
    unfolding q_def by (rule round_half_even_le)
qed

lemma is_double_of_int:
  assumes "\<bar>k\<bar> \<le> 2 ^ 53"
  shows "is_double (of_int k)"
proof (cases "\<bar>k\<bar> < 2 ^ 53")
  case True
  have "\<bar>of_int k :: rat\<bar> = of_int \<bar>k\<bar>" by simp
  also have "\<dots> < of_int (2 ^ 1024)"
    using True by (simp only: of_int_less_iff) simp
  finally have "\<bar>of_int k :: rat\<bar> < 2 ^ 1024" by simp
  with True show ?thesis
    by (intro is_doubleI [of _ k 0]) simp_all
next
  case False
  with assms have "\<bar>k\<bar> = 2 ^ 53" by simp
  then have "k = 2 ^ 53 \<or> k = - (2 ^ 53)" by linarith
  then show ?thesis
  proof
    assume "k = 2 ^ 53"
    then show ?thesis by (intro is_doubleI [of _ "2 ^ 52" 1]) simp_all
  next
    assume "k = - (2 ^ 53)"
    then show ?thesis by (intro is_doubleI [of _ "- (2 ^ 52)" 1]) simp_all
  qed
qed

lemma round_double_is_double:
  assumes "round_double x = Some r"
  shows "is_double r"
proof (cases "x = 0")
  case True
  with assms have "r = 0" by (simp add: round_double_def)
  then show ?thesis using is_double_of_int [of 0] by simp
next
  case False
  define a where "a = \<bar>x\<bar>"
  define q where "q = ulp_exponent a"
  define m where "m = round_half_even (a / 2 powi q)"
  define s :: int where "s = (if 0 < x then 1 else - 1)"
  have "0 < a" using False by (simp add: a_def)
  have fin: "\<not> (2::rat) ^ 1024 \<le> of_int m * 2 powi q" and r: "r = sgn x * (of_int m * 2 powi q)"
    using assms False
    by (auto simp add: round_double_def Let_def a_def [symmetric] q_def [symmetric]
        m_def [symmetric] split: if_splits)
  have sgn: "sgn x = of_int s" using False by (simp add: s_def sgn_if)
  have "0 \<le> a / 2 powi q" using \<open>0 < a\<close> two_powi_pos [of q] by simp
  then have m0: "0 \<le> m"
    unfolding m_def using round_half_even_ge [of 0 "a / 2 powi q"] by simp
  have m53: "m \<le> 2 ^ 53"
    unfolding m_def q_def using \<open>0 < a\<close> by (rule significand_le)
  have q: "- 1074 \<le> q" by (simp add: q_def ulp_exponent_def)
  have absr: "\<bar>r\<bar> = of_int m * 2 powi q"
    using m0 two_powi_pos [of q] by (simp add: r sgn s_def abs_mult)
  show ?thesis
  proof (cases "m < 2 ^ 53")
    case True
    show ?thesis
    proof (rule is_doubleI [of _ "s * m" q])
      show "r = of_int (s * m) * 2 powi q" by (simp add: r sgn)
      show "\<bar>s * m\<bar> < 2 ^ 53" using True m0 by (simp add: s_def abs_mult)
      show "- 1074 \<le> q" by (rule q)
      show "\<bar>r\<bar> < 2 ^ 1024" using fin by (simp add: absr)
    qed
  next
    case False
    with m53 have m: "m = 2 ^ 53" by simp
    show ?thesis
    proof (rule is_doubleI [of _ "s * 2 ^ 52" "q + 1"])
      have "(2::rat) powi (q + 1) = 2 powi q * 2" by (simp add: two_powi_split)
      then show "r = of_int (s * 2 ^ 52) * 2 powi (q + 1)" by (simp add: r sgn m)
      show "\<bar>s * 2 ^ 52\<bar> < 2 ^ 53" by (simp add: s_def)
      show "- 1074 \<le> q + 1" using q by simp
      show "\<bar>r\<bar> < 2 ^ 1024" using fin by (simp add: absr)
    qed
  qed
qed

lemma is_double_minus_int:
  assumes "is_double h" and "0 \<le> k" and "of_int k \<le> h" and "h \<le> 2 ^ 53"
  shows "is_double (h - of_int k)"
proof -
  from assms(1) obtain m q where h: "h = of_int m * 2 powi q" and m: "\<bar>m\<bar> < 2 ^ 53"
    and q: "- 1074 \<le> q" and fin: "\<bar>h\<bar> < 2 ^ 1024"
    unfolding is_double_def by blast
  have h0: "0 \<le> h" using assms(2,3) by (meson of_int_0_le_iff order_trans)
  show ?thesis
  proof (cases "q \<le> 0")
    case True
    define j where "j = m - k * 2 ^ nat (- q)"
    have scale: "(2::rat) powi (- q) = of_int (2 ^ nat (- q))"
      using True by (intro two_powi_nat) simp
    have "(2::rat) powi (- q) * 2 powi q = 1"
      using two_powi_split [of "- q" q] by simp
    then have "(of_int (2 ^ nat (- q)) :: rat) * 2 powi q = 1"
      unfolding scale .
    then have "(of_int (k * 2 ^ nat (- q)) :: rat) * 2 powi q = of_int k"
      by (simp add: mult.assoc)
    then have diff: "h - of_int k = of_int j * 2 powi q"
      by (simp add: j_def h left_diff_distrib)
    have "0 \<le> h - of_int k" using assms(3) by simp
    then have "0 \<le> of_int j * (2::rat) powi q" unfolding diff .
    then have "0 \<le> (of_int j :: rat)"
      using two_powi_pos [of q] by (simp add: zero_le_mult_iff)
    then have "0 \<le> j" by simp
    moreover have "j \<le> m" using assms(2) by (simp add: j_def)
    ultimately have "\<bar>j\<bar> < 2 ^ 53" using m by simp
    moreover have "\<bar>h - of_int k\<bar> < 2 ^ 1024"
      using assms(2,3) fin by simp
    ultimately show ?thesis
      using diff q by (intro is_doubleI [of _ j q]) simp_all
  next
    case False
    then have "(2::rat) powi q = of_int (2 ^ nat q)"
      by (intro two_powi_nat) simp
    then have hint: "h = of_int (m * 2 ^ nat q)" by (simp add: h)
    then have diff: "h - of_int k = of_int (m * 2 ^ nat q - k)" by simp
    have "\<bar>m * 2 ^ nat q - k\<bar> \<le> 2 ^ 53"
    proof -
      have "(of_int (m * 2 ^ nat q) :: rat) \<le> of_int (2 ^ 53)"
        using assms(4) hint by simp
      then have "m * 2 ^ nat q \<le> 2 ^ 53" by (simp only: of_int_le_iff)
      moreover have "k \<le> m * 2 ^ nat q"
        using assms(3) unfolding hint by (simp only: of_int_le_iff)
      ultimately show ?thesis using assms(2) by simp
    qed
    then have "is_double (of_int (m * 2 ^ nat q - k))" by (rule is_double_of_int)
    then show ?thesis unfolding diff .
  qed
qed

lemma round_double_eval:
  assumes "2 powi e \<le> x" and "x < 2 powi (e + 1)" and "- 1022 \<le> e" and "e \<le> 1022"
  shows "round_double x
           = Some (of_int (round_half_even (x / 2 powi (e - 52))) * 2 powi (e - 52))"
proof -
  have "0 < x" using two_powi_pos [of e] assms(1) by (rule less_le_trans)
  have "floor_log2 x = e" using assms(1,2) by (rule floor_log2_unique)
  then have q: "ulp_exponent x = e - 52" using assms(3) by (simp add: ulp_exponent_def)
  define m where "m = round_half_even (x / 2 powi (e - 52))"
  have "m \<le> 2 ^ 53"
    using significand_le [OF \<open>0 < x\<close>] by (simp add: q m_def)
  then have "(of_int m :: rat) \<le> of_int (2 ^ 53)" by (simp only: of_int_le_iff)
  then have "of_int m * (2::rat) powi (e - 52) \<le> of_int (2 ^ 53) * 2 powi (e - 52)"
    using two_powi_pos [of "e - 52"] by (simp only: mult_le_cancel_right_pos)
  also have "\<dots> = 2 powi (e + 1)"
    using two_powi_split [of 53 "e - 52"] by (simp add: add.commute)
  also have "\<dots> \<le> 2 powi 1023"
    using assms(4) by (intro two_powi_mono) simp
  also have "\<dots> < 2 ^ 1024" by simp
  finally have "\<not> (2::rat) ^ 1024 \<le> of_int m * 2 powi (e - 52)" by simp
  then show ?thesis
    using \<open>0 < x\<close> by (simp add: round_double_def Let_def q m_def [symmetric])
qed


lemma floor_rat_numeral_div:
  "\<lfloor>numeral a / numeral b :: rat\<rfloor> = numeral a div numeral b"
  by (metis floor_divide_of_int_eq of_int_numeral)

lemma float_03_bounds: "0 < float_03" "float_03 \<le> 1"
  by (simp_all add: float_03_def)

lemma target_size_steps:
  assumes "py_truediv (tw * H) W = Inr h"
    and "float_mul h float_03 = Some p" and "0 \<le> p"
    and "round_double (of_int \<lfloor>p\<rfloor>) = Some (of_int \<lfloor>p\<rfloor>)"
    and "round_double (h - of_int \<lfloor>p\<rfloor>) = Some (h - of_int \<lfloor>p\<rfloor>)"
    and "of_int \<lfloor>p\<rfloor> \<le> h"
  shows "target_size tw W H = Inr (tw, \<lfloor>h\<rfloor> - \<lfloor>p\<rfloor>)"
  using assms
  by (simp add: target_size_def bind_err_def py_int_def int_to_float_def float_sub_def)

lemma target_size_value:
  assumes "1 \<le> W" and "1 \<le> H" and "0 \<le> tw" and "tw * H < 2 ^ 53"
  shows "\<exists>h p. py_truediv (tw * H) W = Inr h \<and> float_mul h float_03 = Some p
               \<and> target_size tw W H = Inr (tw, \<lfloor>h\<rfloor> - \<lfloor>p\<rfloor>)"
proof -
  define x :: rat where "x = of_int (tw * H) / of_int W"
  have top: "is_double (2 ^ 53)"
    using is_double_of_int [of "2 ^ 53"] by simp
  have "0 \<le> tw * H" using assms(2,3) by simp
  then have num: "0 \<le> (of_int (tw * H) :: rat)" by (simp only: of_int_0_le_iff)
  have den: "1 \<le> (of_int W :: rat)" using assms(1) by simp
  have x0: "0 \<le> x"
    unfolding x_def using num den by (intro divide_nonneg_pos) simp_all
  have "of_int (tw * H) / of_int W \<le> (of_int (tw * H) :: rat) / 1"
    using num den by (intro divide_left_mono) simp_all
  then have "x \<le> of_int (tw * H)" by (simp add: x_def)
  also have "\<dots> \<le> of_int (2 ^ 53)"
    using assms(4) by (simp only: of_int_le_iff)
  finally have x53: "x \<le> 2 ^ 53" by simp
  have "\<exists>h. round_double x = Some h \<and> 0 \<le> h \<and> h \<le> 2 ^ 53"
  proof (cases "x = 0")
    case True
    then show ?thesis by (simp add: round_double_def)
  next
    case False
    with x0 have "0 < x" by simp
    then show ?thesis using x53 top by (rule round_double_le)
  qed
  then obtain h where h: "round_double x = Some h" and h0: "0 \<le> h" and h53: "h \<le> 2 ^ 53"
    by blast
  have hd: "is_double h" using h by (rule round_double_is_double)
  have div: "py_truediv (tw * H) W = Inr h"
    using assms(1) h by (simp add: py_truediv_def x_def)
  have "\<exists>p. round_double (h * float_03) = Some p \<and> 0 \<le> p \<and> p \<le> h"
  proof (cases "h = 0")
    case True
    then show ?thesis by (simp add: round_double_def)
  next
    case False
    with h0 have "0 < h * float_03" using float_03_bounds(1) by simp
    moreover have "h * float_03 \<le> h"
      using h0 float_03_bounds(2) by (simp add: mult_left_le)
    ultimately show ?thesis using hd by (rule round_double_le)
  qed
  then obtain p where p: "float_mul h float_03 = Some p" and p0: "0 \<le> p" and ph: "p \<le> h"
    unfolding float_mul_def by blast
  define k where "k = \<lfloor>p\<rfloor>"
  have k0: "0 \<le> k" using p0 by (simp add: k_def)
  have kh: "of_int k \<le> h"
    using ph of_int_floor_le [of p] unfolding k_def by (rule order_trans [rotated])
  have "(of_int k :: rat) \<le> of_int (2 ^ 53)"
    using kh h53 by simp
  then have "k \<le> 2 ^ 53" by (simp only: of_int_le_iff)
  then have "is_double (of_int k)"
    using k0 by (intro is_double_of_int) simp
  then have kexact: "round_double (of_int k) = Some (of_int k)"
    by (rule round_double_exact)
  have "is_double (h - of_int k)"
    using hd k0 kh h53 by (rule is_double_minus_int)
  then have "round_double (h - of_int k) = Some (h - of_int k)"
    by (rule round_double_exact)
  with div p p0 kexact kh have "target_size tw W H = Inr (tw, \<lfloor>h\<rfloor> - \<lfloor>p\<rfloor>)"
    unfolding k_def by (intro target_size_steps)
  with div p show ?thesis by blast
qed

lemma round_double_27_2: "round_double (27 / 2) = Some (27 / 2)"
  by (intro round_double_exact is_doubleI [of _ 27 "- 1"]) simp_all

lemma py_truediv_1080_80: "py_truediv (120 * 9) 80 = Inr (27 / 2)"
  using round_double_27_2 by (simp add: py_truediv_def)

lemma float_mul_27_2: "float_mul (27 / 2) float_03 = Some (4559894622712627 / 1125899906842624)"
proof -
  have "round_double (27 / 2 * float_03)
          = Some (of_int (round_half_even (27 / 2 * float_03 / 2 powi (2 - 52))) * 2 powi (2 - 52))"
    by (rule round_double_eval) (simp_all add: float_03_def)
  moreover have "round_half_even (27 / 2 * float_03 / 2 powi (2 - 52)) = 4559894622712627"
    by (simp add: float_03_def round_half_even_def floor_rat_numeral_div)
  ultimately show ?thesis by (simp add: float_mul_def)
qed

lemma float_mul_13: "float_mul 13 float_03 = Some (8782019273372467 / 2251799813685248)"
proof -
  have "round_double (13 * float_03)
          = Some (of_int (round_half_even (13 * float_03 / 2 powi (1 - 52))) * 2 powi (1 - 52))"
    by (rule round_double_eval) (simp_all add: float_03_def)
  moreover have "round_half_even (13 * float_03 / 2 powi (1 - 52)) = 8782019273372467"
    by (simp add: float_03_def round_half_even_def floor_rat_numeral_div)
  ultimately show ?thesis by (simp add: float_mul_def)
qed

lemma round_double_small_int:
  "\<bar>k\<bar> \<le> 2 ^ 53 \<Longrightarrow> round_double (of_int k) = Some (of_int k)"
  by (intro round_double_exact is_double_of_int)

lemma py_truediv_12000_200: "py_truediv (120 * 100) 200 = Inr 60"
  using round_double_small_int [of 60] by (simp add: py_truediv_def)

lemma float_mul_60: "float_mul 60 float_03 = Some 18"
proof -
  have "round_double (60 * float_03)
          = Some (of_int (round_half_even (60 * float_03 / 2 powi (4 - 52))) * 2 powi (4 - 52))"
    by (rule round_double_eval) (simp_all add: float_03_def)
  moreover have "round_half_even (60 * float_03 / 2 powi (4 - 52)) = 5066549580791808"
    by (simp add: float_03_def round_half_even_def floor_rat_numeral_div)
  ultimately show ?thesis by (simp add: float_mul_def)
qed

section \<open>Claims about the resizer\<close>

text \<open>
  Claim C1, as stated: the height of the resized image is
  \<^verbatim>\<open>int(tw*H/W) - int(int(tw*H/W)*0.3)\<close>, the quotient being truncated before the
  reduction is computed. For an image of 80 by 9 pixels and target width 120 the quotient
  is 13.5; the code takes the reduction \<^verbatim>\<open>int(13.5 * .3) = 4\<close> and requests the height
  \<^verbatim>\<open>int(13.5 - 4) = 9\<close>, where the stated formula gives \<^verbatim>\<open>13 - int(13 * .3) = 10\<close>.
\<close>

theorem target_size_counterexample:
  "target_size 120 80 9 = Inr (120, 9) \<and> spec_height 120 80 9 = Inr 10"
proof -
  have "round_double (19 / 2) = Some (19 / 2)"
    by (intro round_double_exact is_doubleI [of _ 19 "- 1"]) simp_all
  moreover have "round_double 4 = Some 4" "round_double 13 = Some 13"
    using round_double_small_int [of 4] round_double_small_int [of 13] by simp_all
  ultimately show ?thesis
    using py_truediv_1080_80 float_mul_27_2 float_mul_13
    by (simp add: target_size_def spec_height_def bind_err_def py_int_def int_to_float_def
        float_sub_def floor_rat_numeral_div)
qed

text \<open>
  Claim C1, amended. For every image with width \<open>W \<ge> 1\<close> and height \<open>H \<ge> 1\<close> and
  every target width \<open>tw \<ge> 0\<close> with \<open>tw * H < 2 ^ 53\<close>, the resizer asks the library
  for an image of width exactly \<open>tw\<close> and height exactly \<^verbatim>\<open>int(h) - int(h * .3)\<close>, where
  \<open>h\<close> is the float quotient \<^verbatim>\<open>tw * H / W\<close>, not truncated: the reduction of 30% is taken
  from the untruncated target height, and the only truncation of the height itself comes
  after the subtraction. What \<^verbatim>\<open>resize_image\<close> returns is what the library returns for
  that size.
\<close>

theorem resize_image_untruncated:
  assumes "image self = Some img"
    and "1 \<le> width img" and "1 \<le> height img"
    and "0 \<le> target_width self" and "target_width self * height img < 2 ^ 53"
  shows "\<exists>h p. py_truediv (target_width self * height img) (width img) = Inr h
               \<and> float_mul h float_03 = Some p
               \<and> target_size (target_width self) (width img) (height img)
                   = Inr (target_width self, \<lfloor>h\<rfloor> - \<lfloor>p\<rfloor>)
               \<and> fst (resize_image lib self w)
                   = Image_resize lib img (target_width self, \<lfloor>h\<rfloor> - \<lfloor>p\<rfloor>)"
proof -
  from target_size_value [OF assms(2-5)] obtain h p
    where "py_truediv (target_width self * height img) (width img) = Inr h"
      and "float_mul h float_03 = Some p"
      and size: "target_size (target_width self) (width img) (height img)
                   = Inr (target_width self, \<lfloor>h\<rfloor> - \<lfloor>p\<rfloor>)"
    by blast
  moreover have "fst (resize_image lib self w)
                   = Image_resize lib img (target_width self, \<lfloor>h\<rfloor> - \<lfloor>p\<rfloor>)"
    using assms(1) size by (simp add: resize_image_def Let_def split: option.splits)
  ultimately show ?thesis by blast
qed

theorem resize_image_untruncated_witness:
  "fst (resize_image example_lib
          \<lparr>is_context_manager = True, path_to_image = ''photo.png'',
           image = Some \<lparr>width = 200, height = 100, getdata = []\<rparr>, target_width = 120\<rparr>
          example_world)
     = Some \<lparr>width = 120, height = 42, getdata = replicate 5040 0\<rparr>"
proof -
  let ?img = "\<lparr>width = 200, height = 100, getdata = []\<rparr>"
  let ?self = "\<lparr>is_context_manager = True, path_to_image = ''photo.png'',
                image = Some ?img, target_width = 120\<rparr>"
  from resize_image_untruncated [of ?self ?img example_lib example_world] obtain h p
    where "py_truediv (120 * 100) 200 = Inr h" and "float_mul h float_03 = Some p"
      and "fst (resize_image example_lib ?self example_world)
             = Image_resize example_lib ?img (120, \<lfloor>h\<rfloor> - \<lfloor>p\<rfloor>)"
    by auto
  then show ?thesis
    using py_truediv_12000_200 float_mul_60 by (simp add: example_lib_def)
qed

section \<open>The world through the stages\<close>

lemma errors_log_msg:
  "errors (log_msg lvl msg w) = errors w @ (if lvl = ERROR then [msg] else [])"
  by (simp add: errors_def log_msg_def)

lemma fsys_log_msg: "fsys (log_msg lvl msg w) = fsys w"
  by (simp add: log_msg_def)

lemma errors_fsys_update: "errors (w\<lparr>fsys := fs\<rparr>) = errors w"
  by (simp add: errors_def)

lemma mkdir_each_files: "files (snd (mkdir_each ds fs)) = files fs"
  by (induction ds arbitrary: fs) simp_all

lemma create_output_directory_files:
  "files (fsys (create_output_directory cfg w)) = files (fsys w)"
proof -
  have "files (snd (Path_mkdir (output_folder cfg) (fsys w))) = files (fsys w)"
    by (simp add: Path_mkdir_def mkdir_each_files)
  then show ?thesis
    by (auto simp add: create_output_directory_def Let_def fsys_log_msg split: prod.splits)
qed

lemma create_output_directory_log_msg:
  "fsys (create_output_directory cfg (log_msg lvl msg w)) = fsys (create_output_directory cfg w)"
  "errors (create_output_directory cfg (log_msg lvl msg w))
     = (if lvl = ERROR then errors w @ [msg] @ drop (length (errors w)) (errors (create_output_directory cfg w))
        else errors (create_output_directory cfg w))"
  by (auto simp add: create_output_directory_def Let_def fsys_log_msg errors_log_msg
      errors_fsys_update split: prod.splits)



lemma exit_converter_facts:
  "errors (exit_converter self w) = errors w"
  "fsys (exit_converter self w) = fsys w"
  by (simp_all add: exit_converter_def errors_log_msg fsys_log_msg split: option.splits)

lemma write_ascii_to_file_facts:
  "open_write (os_path_join (output_path cfg) name) text (fsys w) = None \<Longrightarrow>
     errors (write_ascii_to_file cfg text name w) = errors w @ [''Unable to write file'']
     \<and> fsys (write_ascii_to_file cfg text name w) = fsys w"
  "open_write (os_path_join (output_path cfg) name) text (fsys w) = Some fs \<Longrightarrow>
     errors (write_ascii_to_file cfg text name w) = errors w
     \<and> fsys (write_ascii_to_file cfg text name w) = fs"
  by (simp_all add: write_ascii_to_file_def Let_def errors_log_msg fsys_log_msg
      errors_fsys_update)

text \<open>What \<^verbatim>\<open>convert\<close> returns, by the stage that fails first.\<close>

lemma convert_resize_fails:
  assumes "image self = Some img"
    and "(\<exists>e. target_size (target_width self) (width img) (height img) = Inl e)
         \<or> (\<exists>sz. target_size (target_width self) (width img) (height img) = Inr sz
                  \<and> Image_resize lib img sz = None)"
  shows "fst (convert lib self w) = Inl (Uncaught TypeError)"
    and "errors (snd (convert lib self w))
           = errors w @ [''Resize failed'', ''Greyscale conversion failed'',
                         ''ASCII conversion failed'']"
    and "fsys (snd (convert lib self w)) = fsys w"
  using assms
  by (auto simp add: convert_def resize_image_def convert_to_greyscale_def
      convert_pixel_to_ascii_def Let_def errors_log_msg fsys_log_msg)



lemma convert_succeeds:
  assumes "image self = Some img"
    and "target_size (target_width self) (width img) (height img) = Inr sz"
    and "Image_resize lib img sz = Some r" and "Image_convert_L lib r = Some g"
    and "ascii_loop (getdata g) [] = Inr s"
  shows "fst (convert lib self w)
           = (case reflow s (width g) of Inl e \<Rightarrow> Inl (Uncaught e) | Inr t \<Rightarrow> Inr t)"
    and "errors (snd (convert lib self w)) = errors w"
    and "fsys (snd (convert lib self w)) = fsys w"
  using assms
  by (simp_all add: convert_def resize_image_def convert_to_greyscale_def
      convert_pixel_to_ascii_def Let_def errors_log_msg fsys_log_msg split: sum.splits)

text \<open>The script after the image has been opened.\<close>

lemma main_loaded_facts:
  "errors (main_loaded cfg w) = errors (create_output_directory cfg w)"
  "fsys (main_loaded cfg w) = fsys (create_output_directory cfg w)"
  "files (fsys (main_loaded cfg w)) = files (fsys w)"
  by (simp_all add: main_loaded_def errors_log_msg fsys_log_msg create_output_directory_log_msg
      create_output_directory_files)

lemma main_opened:
  assumes "Image_open lib (image_path cfg) = Opened img"
  shows "main lib cfg w =
           (case convert lib (main_converter cfg img) (main_loaded cfg w) of
              (Inl a, w3) \<Rightarrow> (exit_status a, exit_converter (main_converter cfg img) w3)
            | (Inr ascii_string, w3) \<Rightarrow>
                (0, exit_converter (main_converter cfg img)
                      (write_ascii_to_file cfg ascii_string (output_file_name cfg) w3)))"
  unfolding main_converter_def main_loaded_def using assms
  by (simp add: main_def AsciiArtConverter_init_def load_image_def Let_def enter_def)

lemma main_conversion_fails:
  assumes "Image_open lib (image_path cfg) = Opened img"
    and "fst (convert lib (main_converter cfg img) (main_loaded cfg w)) = Inl a"
  shows "fst (main lib cfg w) = exit_status a"
    and "errors (snd (main lib cfg w))
           = errors (snd (convert lib (main_converter cfg img) (main_loaded cfg w)))"
    and "fsys (snd (main lib cfg w))
           = fsys (snd (convert lib (main_converter cfg img) (main_loaded cfg w)))"
  using assms(2)
  by (cases "convert lib (main_converter cfg img) (main_loaded cfg w)";
      simp add: main_opened [OF assms(1)] exit_converter_facts)+

lemma main_conversion_succeeds:
  assumes "Image_open lib (image_path cfg) = Opened img"
    and "fst (convert lib (main_converter cfg img) (main_loaded cfg w)) = Inr t"
  shows "main lib cfg w =
           (0, exit_converter (main_converter cfg img)
                 (write_ascii_to_file cfg t (output_file_name cfg)
                    (snd (convert lib (main_converter cfg img) (main_loaded cfg w)))))"
  using assms(2)
  by (cases "convert lib (main_converter cfg img) (main_loaded cfg w)")
    (simp add: main_opened [OF assms(1)])


section \<open>The example run, evaluated\<close>

lemma example_target_size: "target_size 120 240 2 = Inr (120, 1)"
proof -
  have "round_double 1 = Some 1" "round_double 0 = Some 0"
    using round_double_small_int [of 1] by (simp_all add: round_double_def)
  moreover have "round_double float_03 = Some float_03"
    by (intro round_double_exact is_doubleI [of _ 5404319552844595 "- 54"])
      (simp_all add: float_03_def)
  moreover have "\<lfloor>float_03\<rfloor> = 0"
    by (simp add: float_03_def floor_rat_numeral_div)
  ultimately show ?thesis
    using float_03_bounds(1)
    by (simp add: target_size_def bind_err_def py_truediv_def py_int_def int_to_float_def
        float_mul_def float_sub_def)
qed

lemma example_ascii: "ascii_loop (replicate 120 0) [] = Inr (replicate 120 CHR ''@'')"
proof -
  have "hd (ASCII_CHARS ! nat (ramp_index 0)) = CHR ''@''"
    by (simp add: ramp_index_def ASCII_CHARS_def)
  then show ?thesis
    using ascii_str_as_map [of "replicate 120 0"] by simp
qed

lemma example_reflow:
  "reflow (replicate 120 CHR ''@'') 120 = Inr (replicate 120 CHR ''@'' @ [newline])"
  by (simp add: reflow_def reflow_loop.simps [of _ _ 0] reflow_loop.simps [of _ _ 120] slice_def)

lemma example_convert:
  assumes "image_path cfg = ''black.png''"
  shows "fst (convert example_lib (main_converter cfg example_image) w) = Inr example_text"
    and "errors (snd (convert example_lib (main_converter cfg example_image) w)) = errors w"
    and "fsys (snd (convert example_lib (main_converter cfg example_image) w)) = fsys w"
proof -
  let ?r = "\<lparr>width = 120, height = 1, getdata = replicate 120 0\<rparr>"
  have a: "image (main_converter cfg example_image) = Some example_image"
    by (simp add: main_converter_def)
  have b: "target_size (target_width (main_converter cfg example_image))
             (width example_image) (height example_image) = Inr (120, 1)"
    by (simp add: main_converter_def example_image_def example_target_size)
  have c: "Image_resize example_lib example_image (120, 1) = Some ?r"
    by (simp add: example_lib_def)
  have d: "Image_convert_L example_lib ?r = Some ?r"
    by (simp add: example_lib_def)
  have e: "ascii_loop (getdata ?r) [] = Inr (replicate 120 CHR ''@'')"
    by (simp add: example_ascii)
  show "fst (convert example_lib (main_converter cfg example_image) w) = Inr example_text"
    using convert_succeeds(1) [OF a b c d e, of w] by (simp add: example_reflow example_text_def)
  show "errors (snd (convert example_lib (main_converter cfg example_image) w)) = errors w"
    using a b c d e by (rule convert_succeeds(2))
  show "fsys (snd (convert example_lib (main_converter cfg example_image) w)) = fsys w"
    using a b c d e by (rule convert_succeeds(3))
qed

lemma example_main:
  assumes "image_path cfg = ''black.png''"
  shows "main example_lib cfg w =
           (0, exit_converter (main_converter cfg example_image)
                 (write_ascii_to_file cfg example_text (output_file_name cfg)
                    (snd (convert example_lib (main_converter cfg example_image)
                            (main_loaded cfg w)))))"
proof -
  have "Image_open example_lib (image_path cfg) = Opened example_image"
    using assms by (simp add: example_lib_def)
  then show ?thesis
    using example_convert(1) [OF assms] by (rule main_conversion_succeeds)
qed

lemma example_paths:
  "output_folder example_cfg = ''output''"
  "output_folder example_cfg_dot = ''.''"
  "resolve ''output'' = [''output'']"
  "resolve ''.'' = []"
  "os_path_join ''output'' ''ascii_image.txt'' = ''output/ascii_image.txt''"
  "os_path_join ''./output'' ''ascii_image.txt'' = ''./output/ascii_image.txt''"
  "resolve ''output/ascii_image.txt'' = [''output'', ''ascii_image.txt'']"
  "resolve ''./output/ascii_image.txt'' = [''output'', ''ascii_image.txt'']"
  by (simp_all add: output_folder_def example_cfg_def example_cfg_dot_def resolve_def
      os_path_join_def)

lemma example_file_path:
  "os_path_join (output_path example_cfg) (output_file_name example_cfg)
     = ''output/ascii_image.txt''"
  "os_path_join (output_path example_cfg_dot)
     (output_file_name example_cfg_dot)
     = ''./output/ascii_image.txt''"
  by (simp_all add: example_cfg_def example_cfg_dot_def os_path_join_def)

lemma example_create_plain:
  "create_output_directory example_cfg example_world
     = \<lparr>logged = [(DEBUG, ''Output folder does not exist- creating it.'')],
        fsys = \<lparr>dirs = {[''output'']}, files = Map.empty, denied = {}\<rparr>\<rparr>"
  by (simp add: create_output_directory_def example_paths example_world_def os_path_exists_def
      dir_exists_def Path_mkdir_def prefixes_of_def log_msg_def Let_def)

lemma example_create_dotted:
  "create_output_directory example_cfg_dot example_world
     = example_world"
  by (simp add: create_output_directory_def example_paths example_world_def os_path_exists_def
      dir_exists_def)


lemma example_create_errors:
  "errors (create_output_directory example_cfg example_world) = []"
  "errors (create_output_directory example_cfg_dot example_world)
     = []"
  unfolding example_create_plain example_create_dotted
  by (simp_all add: errors_def example_world_def)

lemma example_world_fsys:
  "dirs (fsys example_world) = {}" "files (fsys example_world) = Map.empty"
  "denied (fsys example_world) = {}"
  by (simp_all add: example_world_def)

lemma example_main_plain:
  "main example_lib example_cfg example_world
     = (0, \<lparr>logged = logged (snd (main example_lib example_cfg example_world)),
            fsys = \<lparr>dirs = {[''output'']},
                     files = [[''output'', ''ascii_image.txt''] \<mapsto> example_text],
                     denied = {}\<rparr>\<rparr>)"
    (is ?A)
  and example_errors_plain: "errors (snd (main example_lib example_cfg example_world)) = []"
    (is ?B)
proof -
  let ?w = "snd (convert example_lib (main_converter example_cfg example_image)
                   (main_loaded example_cfg example_world))"
  have path: "image_path example_cfg = ''black.png''" by (simp add: example_cfg_def)
  have fs: "fsys ?w = \<lparr>dirs = {[''output'']}, files = Map.empty, denied = {}\<rparr>"
    by (simp add: example_convert(3) [OF path] main_loaded_facts example_create_plain)
  have er: "errors ?w = []"
    by (simp add: example_convert(2) [OF path] main_loaded_facts example_create_errors)
  have wr: "open_write (os_path_join (output_path example_cfg) (output_file_name example_cfg))
              example_text (fsys ?w)
            = Some \<lparr>dirs = {[''output'']},
                     files = [[''output'', ''ascii_image.txt''] \<mapsto> example_text],
                     denied = {}\<rparr>"
    by (simp add: example_file_path fs open_write_def example_paths dir_exists_def)
  note facts = write_ascii_to_file_facts(2) [OF wr]
  show ?B
    by (simp add: example_main [OF path] exit_converter_facts facts er)
  have "fsys (snd (main example_lib example_cfg example_world))
          = \<lparr>dirs = {[''output'']},
              files = [[''output'', ''ascii_image.txt''] \<mapsto> example_text], denied = {}\<rparr>"
    by (simp add: example_main [OF path] exit_converter_facts facts)
  moreover have "fst (main example_lib example_cfg example_world) = 0"
    by (simp add: example_main [OF path])
  ultimately show ?A
    by (cases "main example_lib example_cfg example_world") (auto intro: world.equality)
qed

lemma example_main_dotted:
  "fst (main example_lib example_cfg_dot example_world) = 0"
    (is ?A)
  "errors (snd (main example_lib example_cfg_dot example_world))
         = [''Unable to write file'']"
    (is ?B)
  "fsys (snd (main example_lib example_cfg_dot example_world))
         = fsys example_world"
    (is ?C)
proof -
  let ?cfg = "example_cfg_dot"
  let ?w = "snd (convert example_lib (main_converter ?cfg example_image)
                   (main_loaded ?cfg example_world))"
  have path: "image_path ?cfg = ''black.png''"
    by (simp add: example_cfg_def example_cfg_dot_def)
  have fs: "fsys ?w = fsys example_world"
    by (simp add: example_convert(3) [OF path] main_loaded_facts example_create_dotted)
  have er: "errors ?w = []"
    by (simp add: example_convert(2) [OF path] main_loaded_facts example_create_errors)
  have wr: "open_write (os_path_join (output_path ?cfg) (output_file_name ?cfg))
              example_text (fsys ?w) = None"
    by (simp add: example_file_path fs open_write_def example_paths dir_exists_def
        example_world_fsys)
  note facts = write_ascii_to_file_facts(1) [OF wr]
  show ?A by (simp add: example_main [OF path])
  show ?B by (simp add: example_main [OF path] exit_converter_facts facts er)
  show ?C by (simp add: example_main [OF path] exit_converter_facts facts fs)
qed

section \<open>Claims about the target width\<close>

lemma target_size_fst: "target_size tw W H = Inr sz \<Longrightarrow> fst sz = tw"
  by (auto simp add: target_size_def bind_err_def split: sum.splits)

lemma resize_image_own_width:
  "resize_image
     (lib\<lparr>Image_resize :=
            \<lambda>img sz. if fst sz = target_width self then Image_resize lib img sz else None\<rparr>)
     self w
   = resize_image lib self w"
  by (auto simp add: resize_image_def Let_def dest: target_size_fst split: option.splits sum.splits)

lemma convert_own_width:
  "convert
     (lib\<lparr>Image_resize :=
            \<lambda>img sz. if fst sz = target_width self then Image_resize lib img sz else None\<rparr>)
     self w
   = convert lib self w"
proof -
  have "convert_to_greyscale (lib\<lparr>Image_resize := f\<rparr>) t v = convert_to_greyscale lib t v"
    for f t v
    by (cases t) (simp_all add: convert_to_greyscale_def)
  then show ?thesis
    by (simp add: convert_def resize_image_own_width)
qed

lemma init_target_width:
  assumes "AsciiArtConverter_init lib path arg w = (Inr c, w')"
  shows "target_width c = (case arg of None \<Rightarrow> 100 | Some tw \<Rightarrow> tw)"
  using assms
  by (auto simp add: AsciiArtConverter_init_def load_image_def Let_def split: open_result.splits)

text \<open>
  Claim C3, as stated: the target width defaults to 120 when no value is supplied. A
  converter built without the argument, on an image that opens, has target width 100.
\<close>

theorem default_target_width_counterexample:
  "map_sum id target_width
     (fst (AsciiArtConverter_init
             \<lparr>Image_open = (\<lambda>path. Opened \<lparr>width = 200, height = 100, getdata = []\<rparr>),
              Image_resize = (\<lambda>img sz. None), Image_convert_L = (\<lambda>img. None)\<rparr>
             ''in.png'' None \<lparr>logged = [], fsys = \<lparr>dirs = {}, files = Map.empty, denied = {}\<rparr>\<rparr>))
   = Inr 100"
  by (simp add: AsciiArtConverter_init_def load_image_def Let_def)

text \<open>
  Claim C3, amended. The target width parameter of the converter defaults to 100 when no
  value is supplied. The script supplies 120, so the converter it builds has target width
  120, and 120 is the only width the script ever requests from the library's resize: a
  library that refuses every other width leaves the run unchanged.
\<close>

theorem target_width_default_and_use:
  "map_sum id target_width (fst (AsciiArtConverter_init lib path None w))
     = map_sum id (\<lambda>c. 100) (fst (AsciiArtConverter_init lib path None w))
   \<and> map_sum id target_width (fst (AsciiArtConverter_init lib path (Some 120) w))
     = map_sum id (\<lambda>c. 120) (fst (AsciiArtConverter_init lib path (Some 120) w))
   \<and> main (lib\<lparr>Image_resize :=
                  \<lambda>img sz. if fst sz = 120 then Image_resize lib img sz else None\<rparr>) cfg w
     = main lib cfg w"
proof -
  have a: "map_sum id target_width (fst (AsciiArtConverter_init lib path arg w))
     = map_sum id (\<lambda>c. case arg of None \<Rightarrow> 100 | Some tw \<Rightarrow> tw)
         (fst (AsciiArtConverter_init lib path arg w))" for arg
    by (simp add: AsciiArtConverter_init_def load_image_def Let_def split: open_result.splits)
  let ?lib = "lib\<lparr>Image_resize :=
                  \<lambda>img sz. if fst sz = 120 then Image_resize lib img sz else None\<rparr>"
  have init: "AsciiArtConverter_init ?lib p arg v = AsciiArtConverter_init lib p arg v" for p arg v
    by (simp add: AsciiArtConverter_init_def load_image_def)
  have conv: "convert ?lib (enter c) v = convert lib (enter c) v"
    if "AsciiArtConverter_init lib (image_path cfg) (Some 120) v0 = (Inr c, v1)" for c v v0 v1
  proof -
    have "target_width (enter c) = 120"
      using init_target_width [OF that] by (simp add: enter_def)
    then show ?thesis
      using convert_own_width [where lib = lib and self = "enter c" and w = v] by simp
  qed
  have "main ?lib cfg w = main lib cfg w"
    by (auto simp add: main_def Let_def init conv split: prod.splits sum.splits)
  with a [of None] a [of "Some 120"] show ?thesis by simp
qed

theorem target_width_default_and_use_witness:
  "map_sum id target_width (fst (AsciiArtConverter_init example_lib ''black.png'' None example_world))
     = Inr 100
   \<and> map_sum id target_width
       (fst (AsciiArtConverter_init example_lib ''black.png'' (Some 120) example_world))
     = Inr 120
   \<and> fst (main (example_lib\<lparr>Image_resize :=
                   \<lambda>img sz. if fst sz = 120 then Image_resize example_lib img sz else None\<rparr>)
           example_cfg example_world) = 0"
proof -
  have "fst (AsciiArtConverter_init example_lib ''black.png'' arg example_world)
          = Inr \<lparr>is_context_manager = False, path_to_image = ''black.png'',
                 image = Some example_image,
                 target_width = (case arg of None \<Rightarrow> 100 | Some tw \<Rightarrow> tw)\<rparr>" for arg
    by (simp add: AsciiArtConverter_init_def load_image_def Let_def example_lib_def)
  moreover have "fst (main example_lib example_cfg example_world) = 0"
    by (subst example_main_plain) simp
  ultimately show ?thesis
    using target_width_default_and_use [of example_lib "''black.png''" example_world example_cfg]
    by simp
qed

section \<open>Claims about the script\<close>

text \<open>
  Claim C8. For every configured output directory the writer makes sure the directory
  exists, creating it and its missing ancestors, and then writes the text block to the
  file of the configured name inside it. Evaluated on the example: with the directory
  given as \<^verbatim>\<open>./output\<close> in an empty working directory the run ends with status 0, has
  created no directory, has logged that the file could not be written and leaves no file,
  because the folder to create is taken to be the parent of the path as soon as the path
  holds a dot. With the same directory given as \<^verbatim>\<open>output\<close> the run creates it and
  writes the text block to \<^verbatim>\<open>output/ascii_image.txt\<close>.
\<close>

theorem output_directory_with_dot_not_created:
  "fst (main example_lib example_cfg_dot example_world) = 0
   \<and> errors (snd (main example_lib example_cfg_dot example_world))
       = [''Unable to write file'']
   \<and> dirs (fsys (snd (main example_lib example_cfg_dot
                         example_world))) = {}
   \<and> files (fsys (snd (main example_lib example_cfg_dot
                          example_world))) = Map.empty
   \<and> dirs (fsys (snd (main example_lib example_cfg example_world))) = {[''output'']}
   \<and> files (fsys (snd (main example_lib example_cfg example_world)))
       = [[''output'', ''ascii_image.txt''] \<mapsto> example_text]
   \<and> errors (snd (main example_lib example_cfg example_world)) = []"
proof -
  have "fsys (snd (main example_lib example_cfg example_world))
          = \<lparr>dirs = {[''output'']},
              files = [[''output'', ''ascii_image.txt''] \<mapsto> example_text], denied = {}\<rparr>"
    by (subst example_main_plain) simp
  then show ?thesis
    by (simp add: example_main_dotted example_errors_plain example_world_fsys)
qed

text \<open>
  Claim C7, as stated: for every input path that does not resolve to an existing,
  decodable image file the program logs the failure and ends with status 1. When
  \<^verbatim>\<open>Image.open\<close> raises an exception other than \<^verbatim>\<open>FileNotFoundError\<close>, as for an existing
  file that it cannot identify as an image, the handler of \<^verbatim>\<open>load_image\<close> is not entered
  and nothing is logged at level \<^verbatim>\<open>ERROR\<close>; the status is 1 by the uncaught exception
  alone.
\<close>

theorem open_failure_counterexample:
  "Image_open example_lib_undecodable (image_path example_cfg)
     = OtherOpenError
   \<and> fst (main example_lib_undecodable example_cfg example_world) = 1
   \<and> errors (snd (main example_lib_undecodable example_cfg
                      example_world)) = []"
  by (simp add: main_def AsciiArtConverter_init_def load_image_def Let_def errors_log_msg
      create_output_directory_log_msg example_create_errors example_lib_undecodable_def)

text \<open>
  Claim C7, amended. For every input path at which \<^verbatim>\<open>Image.open\<close> raises
  \<^verbatim>\<open>FileNotFoundError\<close>, the program logs the failure, ends with status 1 and creates no
  output file. For every input path at which \<^verbatim>\<open>Image.open\<close> itself raises any other
  exception, the exception is not caught: the process ends with status 1 and no output
  file, and the program logs no record of the failure. When \<^verbatim>\<open>Image.open\<close> returns an
  image and the failure comes only when the data are first used, inside the resize, it is
  caught and logged as a failure of the resize, and the run ends with status 1 and no
  output file. For every run in which the image opens and all the conversion stages
  succeed, the exit status is 0.
\<close>

theorem open_failure_exit_status:
  "(Image_open lib (image_path cfg) = FileNotFoundError \<longrightarrow>
      fst (main lib cfg w) = 1
      \<and> errors (snd (main lib cfg w)) = errors (create_output_directory cfg w) @ [''Unable to open'']
      \<and> files (fsys (snd (main lib cfg w))) = files (fsys w))
   \<and> (Image_open lib (image_path cfg) = OtherOpenError \<longrightarrow>
      fst (main lib cfg w) = 1
      \<and> errors (snd (main lib cfg w)) = errors (create_output_directory cfg w)
      \<and> files (fsys (snd (main lib cfg w))) = files (fsys w))
   \<and> (\<forall>img sz.
        Image_open lib (image_path cfg) = Opened img
        \<and> target_size 120 (width img) (height img) = Inr sz
        \<and> Image_resize lib img sz = None
        \<longrightarrow> fst (main lib cfg w) = 1
            \<and> errors (snd (main lib cfg w))
                = errors (create_output_directory cfg w)
                  @ [''Resize failed'', ''Greyscale conversion failed'',
                     ''ASCII conversion failed'']
            \<and> files (fsys (snd (main lib cfg w))) = files (fsys w))
   \<and> (\<forall>img sz r g s.
        Image_open lib (image_path cfg) = Opened img
        \<and> target_size 120 (width img) (height img) = Inr sz
        \<and> Image_resize lib img sz = Some r \<and> Image_convert_L lib r = Some g
        \<and> ascii_loop (getdata g) [] = Inr s \<and> width g \<noteq> 0
        \<longrightarrow> fst (main lib cfg w) = 0)"
proof (intro conjI impI allI)
  assume "Image_open lib (image_path cfg) = FileNotFoundError"
  then have m: "main lib cfg w = (1, log_msg ERROR ''Unable to open'' (main_loaded cfg w))"
    by (simp add: main_def AsciiArtConverter_init_def load_image_def Let_def main_loaded_def)
  show "fst (main lib cfg w) = 1" by (simp add: m)
  show "errors (snd (main lib cfg w)) = errors (create_output_directory cfg w) @ [''Unable to open'']"
    by (simp add: m errors_log_msg main_loaded_facts)
  show "files (fsys (snd (main lib cfg w))) = files (fsys w)"
    by (simp add: m fsys_log_msg main_loaded_facts create_output_directory_files)
next
  assume "Image_open lib (image_path cfg) = OtherOpenError"
  then have m: "main lib cfg w = (1, main_loaded cfg w)"
    by (simp add: main_def AsciiArtConverter_init_def load_image_def Let_def main_loaded_def)
  show "fst (main lib cfg w) = 1" by (simp add: m)
  show "errors (snd (main lib cfg w)) = errors (create_output_directory cfg w)"
    by (simp add: m main_loaded_facts)
  show "files (fsys (snd (main lib cfg w))) = files (fsys w)"
    by (simp add: m main_loaded_facts create_output_directory_files)
next
  fix img sz
  assume a: "Image_open lib (image_path cfg) = Opened img
        \<and> target_size 120 (width img) (height img) = Inr sz
        \<and> Image_resize lib img sz = None"
  let ?self = "main_converter cfg img"
  have img: "image ?self = Some img"
    by (simp add: main_converter_def)
  have fails: "(\<exists>e. target_size (target_width ?self) (width img) (height img) = Inl e)
         \<or> (\<exists>sz. target_size (target_width ?self) (width img) (height img) = Inr sz
                  \<and> Image_resize lib img sz = None)"
    using a by (simp add: main_converter_def)
  note conv = convert_resize_fails [OF img fails, of "main_loaded cfg w"]
  from a have opened: "Image_open lib (image_path cfg) = Opened img" by simp
  note m = main_conversion_fails [OF opened conv(1)]
  show "fst (main lib cfg w) = 1" by (simp add: m(1))
  show "errors (snd (main lib cfg w))
          = errors (create_output_directory cfg w)
            @ [''Resize failed'', ''Greyscale conversion failed'', ''ASCII conversion failed'']"
    by (simp add: m(2) conv(2) main_loaded_facts)
  show "files (fsys (snd (main lib cfg w))) = files (fsys w)"
    by (simp add: m(3) conv(3) main_loaded_facts create_output_directory_files)
next
  fix img sz r g s
  assume a: "Image_open lib (image_path cfg) = Opened img
        \<and> target_size 120 (width img) (height img) = Inr sz
        \<and> Image_resize lib img sz = Some r \<and> Image_convert_L lib r = Some g
        \<and> ascii_loop (getdata g) [] = Inr s \<and> width g \<noteq> 0"
  have "fst (convert lib (main_converter cfg img) (main_loaded cfg w))
          = (case reflow s (width g) of Inl e \<Rightarrow> Inl (Uncaught e) | Inr t \<Rightarrow> Inr t)"
    using a by (intro convert_succeeds(1) [of _ img sz _ r]) (simp_all add: main_converter_def)
  moreover have "\<exists>t. reflow s (width g) = Inr t"
    using a by (simp add: reflow_def)
  ultimately obtain t where "fst (convert lib (main_converter cfg img) (main_loaded cfg w)) = Inr t"
    by auto
  with a show "fst (main lib cfg w) = 0"
    by (simp add: main_conversion_succeeds)
qed

theorem open_failure_exit_status_witness:
  "fst (main example_lib example_cfg_missing example_world) = 1
   \<and> errors (snd (main example_lib example_cfg_missing example_world))
       = [''Unable to open'']
   \<and> files (fsys (snd (main example_lib example_cfg_missing
                          example_world))) = Map.empty
   \<and> fst (main example_lib_undecodable example_cfg example_world) = 1
   \<and> files (fsys (snd (main example_lib_undecodable example_cfg example_world))) = Map.empty
   \<and> fst (main example_lib_no_resize example_cfg example_world) = 1
   \<and> files (fsys (snd (main example_lib_no_resize example_cfg example_world))) = Map.empty
   \<and> fst (main example_lib example_cfg example_world) = 0"
proof -
  let ?cfg = "example_cfg_missing"
  have "Image_open example_lib_undecodable (image_path example_cfg) = OtherOpenError"
    by (simp add: example_lib_undecodable_def)
  with open_failure_exit_status [of example_lib_undecodable example_cfg example_world]
  have undecodable: "fst (main example_lib_undecodable example_cfg example_world) = 1
      \<and> files (fsys (snd (main example_lib_undecodable example_cfg example_world))) = Map.empty"
    by (simp add: example_world_fsys)
  have "Image_open example_lib_no_resize (image_path example_cfg) = Opened example_image
        \<and> target_size 120 (width example_image) (height example_image) = Inr (120, 1)
        \<and> Image_resize example_lib_no_resize example_image (120, 1) = None"
    by (simp add: example_lib_no_resize_def example_lib_def example_cfg_def example_image_def
        example_target_size)
  with open_failure_exit_status [of example_lib_no_resize example_cfg example_world]
  have lazy: "fst (main example_lib_no_resize example_cfg example_world) = 1
      \<and> files (fsys (snd (main example_lib_no_resize example_cfg example_world))) = Map.empty"
    by (simp add: example_world_fsys)
  have "Image_open example_lib (image_path ?cfg) = FileNotFoundError"
    by (simp add: example_lib_def example_cfg_def example_cfg_missing_def)
  moreover have "create_output_directory ?cfg example_world
                   = create_output_directory example_cfg example_world"
    by (simp add: create_output_directory_def output_folder_def example_cfg_def
        example_cfg_missing_def)
  moreover have "Image_open example_lib (image_path example_cfg) = Opened example_image
        \<and> target_size 120 (width example_image) (height example_image) = Inr (120, 1)
        \<and> Image_resize example_lib example_image (120, 1)
            = Some \<lparr>width = 120, height = 1, getdata = replicate 120 0\<rparr>
        \<and> Image_convert_L example_lib \<lparr>width = 120, height = 1, getdata = replicate 120 0\<rparr>
            = Some \<lparr>width = 120, height = 1, getdata = replicate 120 0\<rparr>
        \<and> ascii_loop (getdata \<lparr>width = 120, height = 1, getdata = replicate 120 0\<rparr>) []
            = Inr (replicate 120 CHR ''@'')
        \<and> width \<lparr>width = 120, height = 1, getdata = replicate 120 0\<rparr> \<noteq> 0"
    by (simp add: example_lib_def example_cfg_def example_image_def example_target_size
        example_ascii)
  ultimately have "fst (main example_lib ?cfg example_world) = 1
      \<and> errors (snd (main example_lib ?cfg example_world)) = [''Unable to open'']
      \<and> files (fsys (snd (main example_lib ?cfg example_world))) = Map.empty
      \<and> fst (main example_lib example_cfg example_world) = 0"
    using open_failure_exit_status [of example_lib ?cfg example_world]
      open_failure_exit_status [of example_lib example_cfg example_world]
    by (simp add: example_create_errors example_world_fsys)
  with undecodable lazy show ?thesis by simp
qed




end
